theory Spec2Isabelle
  imports Complex_Main "HOL-Library.AList" "HOL-Library.Product_Lexorder"
begin

section \<open>Data model (types.ts)\<close>

text \<open>
  JavaScript strings are modelled as HOL strings: lists of 8-bit characters, read as the
  UTF-16 code units 0..255 (Latin-1). A JavaScript \<open>number\<close> is modelled as a real:
  the arithmetic is exact, without IEEE rounding, NaN or infinities. Counts and token
  costs, which the code only ever produces as non-negative integers, are naturals; the
  token budget, the depth bound and the node limit are integers. A nullable column is an
  option.
\<close>

text \<open>
  The \<open>embedding\<close> column holds JSON text. The model keeps the outcome of what the
  scorer does with it: the column is NULL or the empty string (falsy, so the text is not
  parsed), the text makes \<open>JSON.parse\<close> or the following \<open>slice\<close> throw (which the
  scorer catches), or it parses to an array of numbers. A text that parses to a string or
  to an array with entries that are not numbers is outside the model.
\<close>

datatype embedding_text = EmbAbsent | EmbMalformed | EmbArray "real list"

record NodeRow =
  node_id :: string
  name :: string
  "file" :: "string option"
  node_type :: "string option"
  signature :: "string option"
  body_text :: "string option"
  roxygen_text :: "string option"
  complexity :: "real option"
  pagerank :: "real option"
  task_weight :: "real option"
  embedding :: embedding_text
  pkg_name :: "string option"
  pkg_version :: "string option"

record EdgeRow =
  edge_id :: nat
  source_id :: string
  target_id :: string
  edge_type :: "string option"
  weight :: "real option"
  metadata :: "string option"

record TaskTraceRow =
  trace_id :: nat
  query :: "string option"
  nodes_json :: "string option"
  polarity :: real
  session_id :: "string option"
  created_at :: "string option"

record TfidfVocabRow =
  "term" :: string
  idf :: real
  doc_count :: nat
  term_count :: nat

record NodeInfo =
  ni_node_id :: string
  ni_name :: string
  ni_file :: "string option"
  ni_node_type :: "string option"
  ni_signature :: "string option"
  ni_body_text :: "string option"
  ni_roxygen_text :: "string option"
  ni_complexity :: "real option"
  ni_pagerank :: "real option"
  ni_task_weight :: "real option"
  ni_pkg_name :: "string option"
  ni_pkg_version :: "string option"
  callers :: "string list"
  callees :: "string list"
  tests :: "string list"

datatype retrieval_mode = tfidf_cosine | fts5_fallback | pagerank_only

text \<open>
  \<open>ContextResult\<close>: the interface declares \<open>retrieval_mode\<close> as a required field;
  the object literals that \<open>queryContext\<close> returns do not have the property, so reading
  it gives \<open>undefined\<close>. The model's field is therefore an option, \<open>None\<close> for a
  missing property.
\<close>

record ContextResult =
  context_string :: string
  node_ids :: "string list"
  token_estimate :: nat
  seed_node :: "string option"
  retrieval_mode :: "retrieval_mode option"

section \<open>Token counting\<close>

text \<open>\<open>Math.ceil(text.length / 3.5)\<close>\<close>

definition estimateTokens :: "string \<Rightarrow> nat" where
  "estimateTokens text = nat \<lceil>real (length text) / 3.5\<rceil>"

section \<open>Cosine similarity\<close>

text \<open>
  The loop of \<open>cosineSimilarity\<close> accumulates \<open>dot\<close>, \<open>normA\<close> and \<open>normB\<close> over
  the indices of \<open>a\<close>; it runs only when both arrays have the same length.
\<close>

fun cosine_loop :: "real list \<Rightarrow> real list \<Rightarrow> real \<times> real \<times> real \<Rightarrow> real \<times> real \<times> real" where
  "cosine_loop (x # xs) (y # ys) (dot, normA, normB) =
     cosine_loop xs ys (dot + x * y, normA + x * x, normB + y * y)"
| "cosine_loop _ _ acc = acc"

definition cosineSimilarity :: "real list \<Rightarrow> real list \<Rightarrow> real" where
  "cosineSimilarity a b =
     (if length a \<noteq> length b \<or> length a = 0 then 0
      else (case cosine_loop a b (0, 0, 0) of (dot, normA, normB) \<Rightarrow>
        let denom = sqrt normA * sqrt normB
        in if denom = 0 then 0 else dot / denom))"

section \<open>TF-IDF query encoding\<close>

text \<open>
  \<open>toLowerCase\<close> on the Latin-1 range: A-Z and the accented capitals 0xC0-0xDE
  (except the multiplication sign 0xD7) move up by 32.
\<close>

definition toLowerCase_char :: "char \<Rightarrow> char" where
  "toLowerCase_char c =
     (let n = (of_char c :: nat)
      in if (65 \<le> n \<and> n \<le> 90) \<or> (192 \<le> n \<and> n \<le> 222 \<and> n \<noteq> 215)
         then char_of (n + 32) else c)"

definition toLowerCase :: "string \<Rightarrow> string" where
  "toLowerCase s = map toLowerCase_char s"

text \<open>The character class \<open>[a-z0-9_.]\<close>.\<close>

definition is_token_char :: "char \<Rightarrow> bool" where
  "is_token_char c \<longleftrightarrow>
     (let n = (of_char c :: nat)
      in (97 \<le> n \<and> n \<le> 122) \<or> (48 \<le> n \<and> n \<le> 57) \<or> n = 95 \<or> n = 46)"

text \<open>\<open>.replace(/[^a-z0-9_.]/g, " ")\<close>\<close>

definition replace_non_token :: "string \<Rightarrow> string" where
  "replace_non_token s = map (\<lambda>c. if is_token_char c then c else CHR '' '') s"

text \<open>
  \<open>.split(/\s+/)\<close> on the replaced text, where the only white space left is the space
  character. As in JavaScript, a separator at the start or the end of the text gives an
  empty first or last piece, and the empty text gives one empty piece.
\<close>

function split_ws :: "string \<Rightarrow> string \<Rightarrow> string list" where
  "split_ws cur [] = [cur]"
| "split_ws cur (c # cs) =
     (if c = CHR '' '' then cur # split_ws [] (dropWhile (\<lambda>d. d = CHR '' '') cs)
      else split_ws (cur @ [c]) cs)"
  by pat_completeness auto
termination
  by (relation "measure (\<lambda>(cur, s). length s)")
     (auto simp: length_dropWhile_le le_imp_less_Suc)

definition tokenize :: "string \<Rightarrow> string list" where
  "tokenize text =
     filter (\<lambda>t. length t > 1) (split_ws [] (replace_non_token (toLowerCase text)))"

text \<open>
  A JavaScript \<open>Map\<close> keeps its keys in insertion order and \<open>set\<close> on an existing key
  keeps the key's position: an association list with \<open>AList.update\<close>. \<open>get\<close> is
  \<open>map_of\<close>.
\<close>

definition tf_step :: "(string \<times> nat) list \<Rightarrow> string \<Rightarrow> (string \<times> nat) list" where
  "tf_step tf t = AList.update t ((case map_of tf t of None \<Rightarrow> 0 | Some c \<Rightarrow> c) + 1) tf"

definition count_terms :: "string list \<Rightarrow> (string \<times> nat) list" where
  "count_terms tokens = foldl tf_step [] tokens"

text \<open>
  The body of the second loop of \<open>buildQueryVector\<close>; \<open>n\<close> is
  \<open>tokens.length\<close>. A term without a vocabulary row is skipped.
\<close>

definition weigh_step ::
  "(string \<times> TfidfVocabRow) list \<Rightarrow> nat \<Rightarrow> (string \<times> real) list \<Rightarrow> string \<times> nat
     \<Rightarrow> (string \<times> real) list" where
  "weigh_step vocab n result tc =
     (case tc of (t, count) \<Rightarrow>
        (case map_of vocab t of
           None \<Rightarrow> result
         | Some row \<Rightarrow>
             let logTf = ln (1 + real count) / ln (1 + real n)
             in AList.update t (logTf * idf row) result))"

definition buildQueryVector ::
  "string \<Rightarrow> (string \<times> TfidfVocabRow) list \<Rightarrow> (string \<times> real) list" where
  "buildQueryVector q vocab =
     (let tokens = tokenize q;
          tf = count_terms tokens
      in foldl (weigh_step vocab (length tokens)) [] tf)"

section \<open>The graph store\<close>

text \<open>
  The full-text index \<open>nodes_fts\<close> is SQLite's FTS5 module, which is not part of this
  code: the store carries its answer to a \<open>MATCH\<close> query as a function. The answer is
  either an error (the virtual table is missing, or FTS5 rejects the query text), or the
  row ids of the matching documents in rank order. A row id is the position of the row
  in \<open>nodes\<close>.
\<close>

datatype fts_result = FtsError | FtsRows "nat list"

text \<open>
  \<open>SQLiteGraph\<close>: the tables of the database handle that the modelled methods read or
  write, and the in-memory vocabulary \<open>Map\<close>. Tables are lists of rows in row-id order.
  \<open>trace_seq\<close> is the \<open>sqlite_sequence\<close> entry of \<open>task_traces\<close> (the largest
  \<open>trace_id\<close> ever handed out), which \<open>AUTOINCREMENT\<close> consults.
\<close>

record SQLiteGraph =
  nodes :: "NodeRow list"
  edges :: "EdgeRow list"
  task_traces :: "TaskTraceRow list"
  trace_seq :: nat
  nodes_fts :: "string \<Rightarrow> fts_result"
  tfidfVocab :: "(string \<times> TfidfVocabRow) list"

text \<open>JavaScript truthiness of a \<open>string | null | undefined\<close> value.\<close>

definition truthy :: "string option \<Rightarrow> bool" where
  "truthy v = (case v of None \<Rightarrow> False | Some s \<Rightarrow> s \<noteq> [])"

text \<open>\<open>Array.prototype.join\<close>\<close>

fun join :: "string \<Rightarrow> string list \<Rightarrow> string" where
  "join sep [] = []"
| "join sep [x] = x"
| "join sep (x # y # ys) = x @ sep @ join sep (y # ys)"

text \<open>
  \<open>ORDER BY pagerank DESC\<close>: SQLite sorts NULL below every number, so a descending
  order has the NULLs last, with or without \<open>NULLS LAST\<close>. Rows with equal keys keep
  their table order in the model (SQL leaves their order open).
\<close>

definition pagerank_desc_key :: "NodeRow \<Rightarrow> nat \<times> real" where
  "pagerank_desc_key n = (case pagerank n of None \<Rightarrow> (1, 0) | Some p \<Rightarrow> (0, - p))"

definition order_by_pagerank_desc :: "NodeRow list \<Rightarrow> NodeRow list" where
  "order_by_pagerank_desc rows = sort_key pagerank_desc_key rows"

section \<open>Seed node discovery\<close>

text \<open>\<open>SELECT node_id FROM nodes WHERE name = ? LIMIT 1\<close>\<close>

definition select_node_by_name :: "SQLiteGraph \<Rightarrow> string \<Rightarrow> NodeRow option" where
  "select_node_by_name g nm = find (\<lambda>n. name n = nm) (nodes g)"

text \<open>
  The FTS5 query of the second tier: the index's ranked row ids joined with \<open>nodes\<close> on
  the row id, first row. \<open>None\<close> stands for the exception that the \<open>try\<close> block
  catches, \<open>Some None\<close> for no row.
\<close>

definition select_fts :: "SQLiteGraph \<Rightarrow> string \<Rightarrow> NodeRow option option" where
  "select_fts g ftsQuery =
     (case nodes_fts g ftsQuery of
        FtsError \<Rightarrow> None
      | FtsRows rs \<Rightarrow>
          Some (case filter (\<lambda>r. r < length (nodes g)) rs of
                  [] \<Rightarrow> None
                | r # _ \<Rightarrow> Some (nodes g ! r)))"

definition fts_tier :: "SQLiteGraph \<Rightarrow> string \<Rightarrow> string option" where
  "fts_tier g q =
     (let ftsQuery = join '' OR '' (take 10 (tokenize q))
      in if ftsQuery \<noteq> [] then
           (case select_fts g ftsQuery of
              Some (Some row) \<Rightarrow> Some (node_id row)
            | _ \<Rightarrow> None)
         else None)"

text \<open>
  The term-overlap loop of the third tier; the state is \<open>(bestScore, bestId)\<close>.
\<close>

definition overlap_step ::
  "string set \<Rightarrow> real \<times> string option \<Rightarrow> NodeRow \<Rightarrow> real \<times> string option" where
  "overlap_step tokens best row =
     (let nameTokens = tokenize (name row);
          overlap = length (filter (\<lambda>t. t \<in> tokens) nameTokens);
          score = real overlap + (case pagerank row of None \<Rightarrow> 0 | Some p \<Rightarrow> p)
      in if score > fst best then (score, Some (node_id row)) else best)"

definition overlap_tier :: "SQLiteGraph \<Rightarrow> string \<Rightarrow> string option" where
  "overlap_tier g q =
     (let tokens = set (tokenize q);
          rows = take 200 (order_by_pagerank_desc (nodes g))
      in snd (foldl (overlap_step tokens) (0, None) rows))"

text \<open>\<open>SELECT node_id FROM nodes ORDER BY pagerank DESC NULLS LAST LIMIT 1\<close>\<close>

definition top_node :: "SQLiteGraph \<Rightarrow> NodeRow option" where
  "top_node g = (case order_by_pagerank_desc (nodes g) of [] \<Rightarrow> None | n # _ \<Rightarrow> Some n)"

text \<open>The first tier: the caller's seed name, when it is given and not the empty string.\<close>

definition name_tier :: "SQLiteGraph \<Rightarrow> string option \<Rightarrow> string option" where
  "name_tier g seedNodeName =
     (case seedNodeName of
        None \<Rightarrow> None
      | Some s \<Rightarrow> if s \<noteq> [] then map_option node_id (select_node_by_name g s) else None)"

text \<open>
  \<open>_findSeedNode\<close>: the tiers in order, first hit wins. The first two tiers return the
  identifier of the row they find as it is; the third returns \<open>bestId\<close> only when it
  is truthy.
\<close>

definition findSeedNode :: "SQLiteGraph \<Rightarrow> string \<Rightarrow> string option \<Rightarrow> string option" where
  "findSeedNode g q seedNodeName =
     (case name_tier g seedNodeName of
        Some i \<Rightarrow> Some i
      | None \<Rightarrow>
         (case fts_tier g q of
            Some i \<Rightarrow> Some i
          | None \<Rightarrow>
             (let bestId = overlap_tier g q
              in if truthy bestId then bestId
                 else map_option node_id (top_node g))))"

section \<open>Breadth-first traversal\<close>

text \<open>
  The recursive member of the CTE for the rows of one depth: the targets of the edges
  that leave a node of the frontier. \<open>UNION\<close> keeps one copy of each \<open>(node_id, depth)\<close>
  row; all rows of depth \<open>d + 1\<close> come from the rows of depth \<open>d\<close>.
\<close>

definition bfs_expand :: "EdgeRow list \<Rightarrow> string list \<Rightarrow> string list" where
  "bfs_expand es frontier =
     remdups (concat (map (\<lambda>n. map target_id (filter (\<lambda>e. source_id e = n) es)) frontier))"

function bfs_rows :: "EdgeRow list \<Rightarrow> int \<Rightarrow> nat \<Rightarrow> string list \<Rightarrow> (string \<times> nat) list" where
  "bfs_rows es max_depth d frontier =
     map (\<lambda>n. (n, d)) frontier @
     (if int d < max_depth then bfs_rows es max_depth (Suc d) (bfs_expand es frontier) else [])"
  by pat_completeness auto
termination
  by (relation "measure (\<lambda>(es, max_depth, d, frontier). nat (max_depth - int d))") auto

declare bfs_rows.simps [simp del]

text \<open>\<open>MIN(bfs.depth)\<close> of the group of a node id; \<open>None\<close> when the group is empty.\<close>

definition min_depth :: "(string \<times> nat) list \<Rightarrow> string \<Rightarrow> nat option" where
  "min_depth rows i =
     (case map snd (filter (\<lambda>r. fst r = i) rows) of
        [] \<Rightarrow> None
      | d # ds \<Rightarrow> Some (fold min ds d))"

text \<open>\<open>ORDER BY depth ASC, n.pagerank DESC\<close>; equal keys keep the table order.\<close>

definition bfs_order_key :: "NodeRow \<times> nat \<Rightarrow> nat \<times> nat \<times> real" where
  "bfs_order_key r = (snd r, pagerank_desc_key (fst r))"

text \<open>\<open>LIMIT n\<close>: a negative limit is no limit in SQLite.\<close>

definition sql_limit :: "int \<Rightarrow> 'a list \<Rightarrow> 'a list" where
  "sql_limit n rows = (if n < 0 then rows else take (nat n) rows)"

text \<open>The outer select of \<open>BFS_SQL\<close> before \<open>LIMIT\<close>: join with \<open>nodes\<close>, group, order.\<close>

definition bfs_joined :: "SQLiteGraph \<Rightarrow> string \<Rightarrow> int \<Rightarrow> (NodeRow \<times> nat) list" where
  "bfs_joined g seed max_depth =
     (let rows = bfs_rows (edges g) max_depth 0 [seed]
      in sort_key bfs_order_key
           (concat (map (\<lambda>n. case min_depth rows (node_id n) of
                               None \<Rightarrow> []
                             | Some d \<Rightarrow> [(n, d)]) (nodes g))))"

definition BFS_SQL :: "SQLiteGraph \<Rightarrow> string \<Rightarrow> int \<Rightarrow> int \<Rightarrow> (NodeRow \<times> nat) list" where
  "BFS_SQL g seed max_depth max_nodes = sql_limit max_nodes (bfs_joined g seed max_depth)"

section \<open>Relevance scoring\<close>

text \<open>
  \<open>qVecArr\<close>: the values of the query vector in the \<open>Map\<close>'s own order, or \<open>null\<close>
  for an empty vector.
\<close>

definition qVecArr_of :: "(string \<times> real) list \<Rightarrow> real list option" where
  "qVecArr_of qVec = (if length qVec > 0 then Some (map snd qVec) else None)"

definition semScore_of :: "real list option \<Rightarrow> NodeRow \<Rightarrow> real" where
  "semScore_of qVecArr node =
     (case (embedding node, qVecArr) of
        (EmbArray emb, Some qv) \<Rightarrow> cosineSimilarity qv (take (length qv) emb)
      | _ \<Rightarrow> 0)"

definition score_node :: "real list option \<Rightarrow> NodeRow \<times> nat \<Rightarrow> real" where
  "score_node qVecArr nd =
     (let semScore = semScore_of qVecArr (fst nd);
          pr = (case pagerank (fst nd) of None \<Rightarrow> 0 | Some p \<Rightarrow> p);
          tw = (case task_weight (fst nd) of None \<Rightarrow> 0.5 | Some w \<Rightarrow> w);
          depthPenalty = 1 / (1 + real (snd nd) * 0.5)
      in 0.4 * semScore + 0.25 * pr + 0.25 * tw + 0.1 * depthPenalty)"

text \<open>
  \<open>scored.sort((a, b) => b.score - a.score)\<close>: a stable sort, descending by score.
\<close>

definition sort_scored :: "(NodeRow \<times> real) list \<Rightarrow> (NodeRow \<times> real) list" where
  "sort_scored scored = sort_key (\<lambda>ns. - snd ns) scored"

section \<open>Context assembly\<close>

text \<open>The names of up to ten callees and callers over \<open>CALLS\<close> edges.\<close>

definition select_callees :: "SQLiteGraph \<Rightarrow> string \<Rightarrow> nat \<Rightarrow> string list" where
  "select_callees g i k =
     take k (concat (map (\<lambda>e. map name (filter (\<lambda>n. node_id n = target_id e) (nodes g)))
       (filter (\<lambda>e. source_id e = i \<and> edge_type e = Some ''CALLS'') (edges g))))"

definition select_callers :: "SQLiteGraph \<Rightarrow> string \<Rightarrow> nat \<Rightarrow> string list" where
  "select_callers g i k =
     take k (concat (map (\<lambda>e. map name (filter (\<lambda>n. node_id n = source_id e) (nodes g)))
       (filter (\<lambda>e. target_id e = i \<and> edge_type e = Some ''CALLS'') (edges g))))"

definition newline :: string where
  "newline = [CHR 0x0A]"

text \<open>\<open>_formatNodeContext\<close>: the rendered block of a node, its lines joined by newlines.\<close>

definition formatNodeContext :: "SQLiteGraph \<Rightarrow> NodeRow \<Rightarrow> string" where
  "formatNodeContext g node =
     (let type = (case node_type node of None \<Rightarrow> ''node'' | Some t \<Rightarrow> t);
          file_part = (case file node of
                         None \<Rightarrow> []
                       | Some f \<Rightarrow> if f \<noteq> [] then '' ['' @ f @ '']'' else []);
          head_line = [''## '' @ name node @ ''  <'' @ type @ ''>'' @ file_part];
          sig_lines = (case signature node of
                         None \<Rightarrow> []
                       | Some sg \<Rightarrow>
                           if sg \<noteq> [] then [''**Signature**: `'' @ sg @ ''`''] else []);
          doc_lines = (case roxygen_text node of
                         None \<Rightarrow> []
                       | Some r \<Rightarrow>
                           if r \<noteq> [] then [''**Documentation**:'', take 400 r] else []);
          callees = select_callees g (node_id node) 10;
          callers = select_callers g (node_id node) 10;
          callee_lines = (if length callees > 0
                          then [''**Calls**: '' @ join '', '' callees] else []);
          caller_lines = (if length callers > 0
                          then [''**Called by**: '' @ join '', '' callers] else []);
          body_lines = (case body_text node of
                          None \<Rightarrow> []
                        | Some b \<Rightarrow>
                            if b \<noteq> [] then [''```r'', take 1200 b, ''```''] else [])
      in join newline
           (head_line @ sig_lines @ doc_lines @ callee_lines @ caller_lines @ body_lines))"

text \<open>
  The assembly loop; the state is \<open>(chunks, usedIds, usedTokens)\<close>. The \<open>break\<close>
  leaves the loop with the state as it is.
\<close>

fun assemble ::
  "SQLiteGraph \<Rightarrow> int \<Rightarrow> NodeRow list \<Rightarrow> string list \<times> string list \<times> nat
     \<Rightarrow> string list \<times> string list \<times> nat" where
  "assemble g budgetTokens [] st = st"
| "assemble g budgetTokens (node # rest) (chunks, usedIds, usedTokens) =
     (let chunk = formatNodeContext g node;
          chunkTokens = estimateTokens chunk
      in if int usedTokens + int chunkTokens > budgetTokens
         then (chunks, usedIds, usedTokens)
         else assemble g budgetTokens rest
                (chunks @ [chunk], usedIds @ [node_id node], usedTokens + chunkTokens))"

text \<open>A natural number in decimal, as a template literal prints it.\<close>

function show_nat :: "nat \<Rightarrow> string" where
  "show_nat n =
     (if n < 10 then [char_of (48 + n)]
      else show_nat (n div 10) @ [char_of (48 + n mod 10)])"
  by pat_completeness auto
termination
  by (relation "measure id") auto

declare show_nat.simps [simp del]

text \<open>The candidates of a query in the order in which the assembly loop walks them.\<close>

definition scored_candidates ::
  "SQLiteGraph \<Rightarrow> string \<Rightarrow> string \<Rightarrow> int \<Rightarrow> int \<Rightarrow> (NodeRow \<times> real) list" where
  "scored_candidates g q seedId maxDepth maxNodes =
     (let bfsNodes = BFS_SQL g seedId maxDepth maxNodes;
          qVec = buildQueryVector q (tfidfVocab g);
          qVecArr = qVecArr_of qVec
      in sort_scored (map (\<lambda>nd. (fst nd, score_node qVecArr nd)) bfsNodes))"

text \<open>The result of the early return, when \<open>seedId\<close> is falsy.\<close>

definition no_graph_data :: ContextResult where
  "no_graph_data =
     \<lparr>context_string = ''# No graph data available.'' @ newline,
      node_ids = [],
      token_estimate = 0,
      seed_node = None,
      retrieval_mode = None\<rparr>"

text \<open>
  \<open>queryContext\<close>. \<open>!seedId\<close> holds for \<open>null\<close> and for the empty string. Neither
  return statement sets \<open>retrieval_mode\<close>.
\<close>

definition queryContext ::
  "SQLiteGraph \<Rightarrow> string \<Rightarrow> string option \<Rightarrow> int \<Rightarrow> int \<Rightarrow> int \<Rightarrow> ContextResult" where
  "queryContext g q seedNodeName budgetTokens maxDepth maxNodes =
     (case findSeedNode g q seedNodeName of
        None \<Rightarrow> no_graph_data
      | Some seedId \<Rightarrow>
          if seedId = [] then no_graph_data
          else
            (let scored = scored_candidates g q seedId maxDepth maxNodes
             in case assemble g budgetTokens (map fst scored) ([], [], 0) of
                  (chunks, usedIds, usedTokens) \<Rightarrow>
                    let header = ''# rrlmgraph context'' @ newline @
                                 ''# Query: '' @ q @ newline @
                                 ''# Nodes: '' @ show_nat (length usedIds) @
                                 '' | Tokens: ~'' @ show_nat usedTokens @ newline @ newline
                    in \<lparr>context_string = header @ join (newline @ ''---'' @ newline) chunks,
                        node_ids = usedIds,
                        token_estimate = usedTokens,
                        seed_node = Some seedId,
                        retrieval_mode = None\<rparr>))"

section \<open>File nodes\<close>

text \<open>
  SQLite's \<open>LIKE\<close>: \<open>%\<close> matches any run of characters, \<open>_\<close> any one character,
  and the letters A-Z match without regard to case.
\<close>

definition like_fold :: "char \<Rightarrow> char" where
  "like_fold c =
     (let n = (of_char c :: nat) in if 65 \<le> n \<and> n \<le> 90 then char_of (n + 32) else c)"

fun like_match :: "string \<Rightarrow> string \<Rightarrow> bool" where
  "like_match [] s = (s = [])"
| "like_match (p # ps) [] = (p = CHR ''%'' \<and> like_match ps [])"
| "like_match (p # ps) (c # cs) =
     (if p = CHR ''%'' then like_match ps (c # cs) \<or> like_match (p # ps) cs
      else (p = CHR ''_'' \<or> like_fold p = like_fold c) \<and> like_match ps cs)"

text \<open>
  \<open>getFileNodes\<close>. \<open>decodeURIComponent\<close> is the runtime's: the model takes the decoded
  path, \<open>None\<close> when the decoder throws a \<open>URIError\<close> on a malformed escape, which
  \<open>getFileNodes\<close> does not catch.
\<close>

datatype js_error = URIError | RangeError

definition node_info_of_row :: "NodeRow \<Rightarrow> NodeInfo" where
  "node_info_of_row r =
     \<lparr>ni_node_id = node_id r, ni_name = name r, ni_file = file r,
      ni_node_type = node_type r, ni_signature = signature r,
      ni_body_text = body_text r, ni_roxygen_text = roxygen_text r,
      ni_complexity = complexity r, ni_pagerank = pagerank r,
      ni_task_weight = task_weight r, ni_pkg_name = pkg_name r,
      ni_pkg_version = pkg_version r,
      callers = [], callees = [], tests = []\<rparr>"

definition getFileNodes :: "SQLiteGraph \<Rightarrow> string option \<Rightarrow> js_error + NodeInfo list" where
  "getFileNodes g decodedPath =
     (case decodedPath of
        None \<Rightarrow> Inl URIError
      | Some decoded \<Rightarrow>
          Inr (map node_info_of_row
                 (filter (\<lambda>r. case file r of
                                None \<Rightarrow> False
                              | Some f \<Rightarrow> f = decoded \<or> like_match (CHR ''%'' # decoded) f)
                    (nodes g))))"

section \<open>Task traces\<close>

text \<open>
  \<open>addTaskTrace\<close>. The clock (\<open>new Date().toISOString()\<close>) and \<open>JSON.stringify\<close>
  are the runtime's and come in as \<open>now\<close> and \<open>stringify\<close>. The result pairs the
  returned value or the thrown error with the store after the call; the message text of
  the \<open>RangeError\<close> is left out.
  \<open>AUTOINCREMENT\<close> gives the new row one more than the largest \<open>trace_id\<close> that the
  table holds or ever held.
\<close>

definition next_trace_id :: "SQLiteGraph \<Rightarrow> nat" where
  "next_trace_id g = Suc (fold max (map trace_id (task_traces g)) (trace_seq g))"

definition addTaskTrace ::
  "(string list \<Rightarrow> string) \<Rightarrow> string \<Rightarrow> SQLiteGraph \<Rightarrow> string \<Rightarrow> string list \<Rightarrow> real
     \<Rightarrow> string option \<Rightarrow> (js_error + nat) \<times> SQLiteGraph" where
  "addTaskTrace stringify now g q nds pol sessionId =
     (if pol < -1 \<or> pol > 1 then
        (Inl RangeError, g)
      else
        (let new_id = next_trace_id g;
             row = \<lparr>trace_id = new_id, query = Some q, nodes_json = Some (stringify nds),
                    polarity = pol, session_id = sessionId, created_at = Some now\<rparr>
         in (Inr new_id, g\<lparr>task_traces := task_traces g @ [row], trace_seq := new_id\<rparr>)))"

section \<open>Example stores\<close>

text \<open>
  The three nodes and three edges of \<open>tests/fixtures/create_fixture.ts\<close> (texts
  shortened), in a store without vocabulary and whose full-text index is unavailable.
\<close>

definition fixture_nodes :: "NodeRow list" where
  "fixture_nodes =
     [\<lparr>node_id = ''build_rrlm_graph'', name = ''build_rrlm_graph'',
       file = Some ''R/graph_build.R'', node_type = Some ''function'',
       signature = Some ''build_rrlm_graph(project_path)'',
       body_text = Some ''function(project_path) { }'',
       roxygen_text = Some ''@title Build an rrlm_graph'',
       complexity = Some 12, pagerank = Some 0.08, task_weight = Some 0.7,
       embedding = EmbArray [0.1, 0.2, 0.3, 0.4, 0.5, 0.6, 0.7, 0.8],
       pkg_name = Some ''rrlmgraph'', pkg_version = Some ''0.2.0''\<rparr>,
      \<lparr>node_id = ''query_context'', name = ''query_context'',
       file = Some ''R/graph_traverse.R'', node_type = Some ''function'',
       signature = Some ''query_context(graph, query, budget_tokens = 6000)'',
       body_text = Some ''function(graph, query, budget_tokens = 6000) { }'',
       roxygen_text = Some ''@title Query context'',
       complexity = Some 8, pagerank = Some 0.07, task_weight = Some 0.65,
       embedding = EmbArray [0.1, 0.15, 0.2, 0.25, 0.3, 0.35, 0.4, 0.45],
       pkg_name = Some ''rrlmgraph'', pkg_version = Some ''0.2.0''\<rparr>,
      \<lparr>node_id = ''export_to_sqlite'', name = ''export_to_sqlite'',
       file = Some ''R/cache.R'', node_type = Some ''function'',
       signature = Some ''export_to_sqlite(graph, db_path)'',
       body_text = Some ''function(graph, db_path) { }'',
       roxygen_text = Some ''@title Export graph to SQLite'',
       complexity = Some 6, pagerank = Some 0.05, task_weight = Some 0.5,
       embedding = EmbArray [0.03, 0.06, 0.09, 0.12, 0.15, 0.18, 0.21, 0.24],
       pkg_name = Some ''rrlmgraph'', pkg_version = Some ''0.2.0''\<rparr>]"

definition fixture_edges :: "EdgeRow list" where
  "fixture_edges =
     [\<lparr>edge_id = 1, source_id = ''build_rrlm_graph'', target_id = ''query_context'',
       edge_type = Some ''CALLS'', weight = Some 1, metadata = None\<rparr>,
      \<lparr>edge_id = 2, source_id = ''build_rrlm_graph'', target_id = ''export_to_sqlite'',
       edge_type = Some ''CALLS'', weight = Some 1, metadata = None\<rparr>,
      \<lparr>edge_id = 3, source_id = ''query_context'', target_id = ''build_rrlm_graph'',
       edge_type = Some ''CALLS'', weight = Some 0.5, metadata = None\<rparr>]"

definition fixture :: SQLiteGraph where
  "fixture =
     \<lparr>nodes = fixture_nodes, edges = fixture_edges, task_traces = [], trace_seq = 0,
      nodes_fts = (\<lambda>_. FtsError), tfidfVocab = []\<rparr>"

text \<open>
  A node with only an identifier, a name, a centrality and a body, and a \<open>CALLS\<close> edge.
\<close>

definition plain_node :: "string \<Rightarrow> string \<Rightarrow> real option \<Rightarrow> string option \<Rightarrow> NodeRow" where
  "plain_node i nm pr body =
     \<lparr>node_id = i, name = nm, file = None, node_type = None, signature = None,
      body_text = body, roxygen_text = None, complexity = None, pagerank = pr,
      task_weight = None, embedding = EmbAbsent, pkg_name = None, pkg_version = None\<rparr>"

definition calls_edge :: "nat \<Rightarrow> string \<Rightarrow> string \<Rightarrow> EdgeRow" where
  "calls_edge k s t =
     \<lparr>edge_id = k, source_id = s, target_id = t, edge_type = Some ''CALLS'',
      weight = None, metadata = None\<rparr>"

text \<open>
  A hub that calls a node with a long body and a node with no body; identifiers differ
  from names.
\<close>

definition star_hub :: NodeRow where
  "star_hub = plain_node ''n_hub'' ''hub'' (Some 0.9) None"

definition star_wide :: NodeRow where
  "star_wide = plain_node ''n_wide'' ''wide'' (Some 0.5) (Some (replicate 70 CHR ''x''))"

definition star_leaf :: NodeRow where
  "star_leaf = plain_node ''n_leaf'' ''leaf'' (Some 0.1) None"

definition star_graph :: SQLiteGraph where
  "star_graph =
     \<lparr>nodes = [star_hub, star_wide, star_leaf],
      edges = [calls_edge 1 ''n_hub'' ''n_wide'', calls_edge 2 ''n_hub'' ''n_leaf''],
      task_traces = [], trace_seq = 0, nodes_fts = (\<lambda>_. FtsRows []), tfidfVocab = []\<rparr>"

text \<open>The three-node cycle A \<open>\<rightarrow>\<close> B \<open>\<rightarrow>\<close> C \<open>\<rightarrow>\<close> A.\<close>

definition cycle_graph :: SQLiteGraph where
  "cycle_graph =
     \<lparr>nodes = [plain_node ''A'' ''a_fn'' (Some 0.3) None,
               plain_node ''B'' ''b_fn'' (Some 0.2) None,
               plain_node ''C'' ''c_fn'' (Some 0.1) None],
      edges = [calls_edge 1 ''A'' ''B'', calls_edge 2 ''B'' ''C'', calls_edge 3 ''C'' ''A''],
      task_traces = [], trace_seq = 0, nodes_fts = (\<lambda>_. FtsError), tfidfVocab = []\<rparr>"

text \<open>A store without rows, and a store whose two nodes have no centrality.\<close>

definition empty_graph :: SQLiteGraph where
  "empty_graph =
     \<lparr>nodes = [], edges = [], task_traces = [], trace_seq = 0,
      nodes_fts = (\<lambda>_. FtsError), tfidfVocab = []\<rparr>"

definition unranked_graph :: SQLiteGraph where
  "unranked_graph =
     \<lparr>nodes = [plain_node ''u1'' ''first'' None None, plain_node ''u2'' ''second'' None None],
      edges = [], task_traces = [], trace_seq = 0,
      nodes_fts = (\<lambda>_. FtsRows []), tfidfVocab = []\<rparr>"

section \<open>Notions used to state the properties\<close>

text \<open>The estimated token cost of a node's rendered block, and of a list of nodes.\<close>

definition block_cost :: "SQLiteGraph \<Rightarrow> NodeRow \<Rightarrow> nat" where
  "block_cost g n = estimateTokens (formatNodeContext g n)"

definition total_cost :: "SQLiteGraph \<Rightarrow> NodeRow list \<Rightarrow> nat" where
  "total_cost g ns = sum_list (map (block_cost g) ns)"

text \<open>
  \<open>walk es s k n\<close>: there is a path of exactly \<open>k\<close> edges of \<open>es\<close>, each followed
  from its source to its target, that leads from \<open>s\<close> to \<open>n\<close>.
\<close>

fun walk :: "EdgeRow list \<Rightarrow> string \<Rightarrow> nat \<Rightarrow> string \<Rightarrow> bool" where
  "walk es s 0 n = (n = s)"
| "walk es s (Suc k) n = list_ex (\<lambda>e. source_id e = s \<and> walk es (target_id e) k n) es"

text \<open>
  The order of \<open>BFS_SQL\<close>'s rows, spelled out: depth ascending, then centrality
  descending with the NULL centralities last.
\<close>

definition bfs_before :: "NodeRow \<times> nat \<Rightarrow> NodeRow \<times> nat \<Rightarrow> bool" where
  "bfs_before a b \<longleftrightarrow>
     snd a < snd b \<or>
     (snd a = snd b \<and>
      (case (pagerank (fst a), pagerank (fst b)) of
         (Some p, Some r) \<Rightarrow> p \<ge> r
       | (Some p, None) \<Rightarrow> True
       | (None, Some r) \<Rightarrow> False
       | (None, None) \<Rightarrow> True))"


text \<open>
  The dot product of two lists of numbers, and the cosine similarity of the query values
  with the leading components of a node's embedding, as the scoring rule describes it:
  it is 0 without an embedding, for no query values, for an embedding that is shorter
  than the query values, and for a zero norm.
\<close>

definition dot :: "real list \<Rightarrow> real list \<Rightarrow> real" where
  "dot a b = sum_list (map2 (*) a b)"

definition similarity :: "real list \<Rightarrow> embedding_text \<Rightarrow> real" where
  "similarity vals e =
     (case e of
        EmbArray emb \<Rightarrow>
          (let lead = take (length vals) emb
           in if vals = [] \<or> length lead < length vals \<or>
                 sqrt (dot vals vals) = 0 \<or> sqrt (dot lead lead) = 0
              then 0
              else dot vals lead / (sqrt (dot vals vals) * sqrt (dot lead lead)))
      | _ \<Rightarrow> 0)"

text \<open>The blended score with a given semantic similarity.\<close>

definition blend :: "real \<Rightarrow> NodeRow \<Rightarrow> nat \<Rightarrow> real" where
  "blend s n d =
     0.40 * s
     + 0.25 * (case pagerank n of None \<Rightarrow> 0 | Some p \<Rightarrow> p)
     + 0.25 * (case task_weight n of None \<Rightarrow> 0.5 | Some w \<Rightarrow> w)
     + 0.10 * (1 / (1 + real d * 0.5))"

text \<open>
  The log-normalised term frequency of a token, and the two orders in which the weights
  of a query's vocabulary terms can be listed: by the first occurrence of each token in
  the query, and by the position of each term in the vocabulary.
\<close>

definition tf_weight :: "string list \<Rightarrow> string \<Rightarrow> real" where
  "tf_weight toks t = ln (1 + real (count_list toks t)) / ln (1 + real (length toks))"

definition first_occurrences :: "'a list \<Rightarrow> 'a list" where
  "first_occurrences xs = rev (remdups (rev xs))"

definition query_order_values :: "string \<Rightarrow> (string \<times> TfidfVocabRow) list \<Rightarrow> real list" where
  "query_order_values q vocab =
     (let toks = tokenize q
      in concat (map (\<lambda>t. case map_of vocab t of
                             None \<Rightarrow> []
                           | Some row \<Rightarrow> [tf_weight toks t * idf row])
                   (first_occurrences toks)))"

definition vocab_order_values :: "string \<Rightarrow> (string \<times> TfidfVocabRow) list \<Rightarrow> real list" where
  "vocab_order_values q vocab =
     (let toks = tokenize q
      in concat (map (\<lambda>tr. if fst tr \<in> set toks then [tf_weight toks (fst tr) * idf (snd tr)]
                             else [])
                   vocab))"

text \<open>
  A vocabulary of two terms, and a node whose embedding is the first unit vector.
\<close>

definition two_term_vocab :: "(string \<times> TfidfVocabRow) list" where
  "two_term_vocab =
     [(''aa'', \<lparr>term = ''aa'', idf = 3, doc_count = 1, term_count = 1\<rparr>),
      (''bb'', \<lparr>term = ''bb'', idf = 4, doc_count = 1, term_count = 1\<rparr>)]"

definition axis_node :: NodeRow where
  "axis_node = (plain_node ''n_axis'' ''axis'' None None)\<lparr>embedding := EmbArray [1, 0]\<rparr>"


section \<open>Properties of the query encoding\<close>

lemma estimateTokens_div: "estimateTokens s = (2 * length s + 6) div 7"
proof -
  have "real (length s) / 3.5 = real_of_int (2 * int (length s)) / real_of_int 7"
    by simp
  then have "\<lceil>real (length s) / 3.5\<rceil> = \<lceil>real_of_int (2 * int (length s)) / real_of_int 7\<rceil>"
    by (rule arg_cong)
  also have "\<dots> = - ((- (2 * int (length s))) div 7)"
    by (simp only: ceiling_divide_eq_div)
  finally have "\<lceil>real (length s) / 3.5\<rceil> = - ((- (2 * int (length s))) div 7)" .
  then show ?thesis unfolding estimateTokens_def by (simp; linarith)
qed

lemma map_of_tf_step:
  "map_of (tf_step tf a) t =
     (if t = a then Some ((case map_of tf a of None \<Rightarrow> 0 | Some c \<Rightarrow> c) + 1) else map_of tf t)"
  by (simp add: tf_step_def update_conv')

lemma count_terms_aux:
  "map_of (foldl tf_step acc toks) t =
     (if t \<in> set toks \<or> t \<in> dom (map_of acc)
      then Some ((case map_of acc t of None \<Rightarrow> 0 | Some c \<Rightarrow> c) + count_list toks t)
      else None)"
proof (induction toks arbitrary: acc)
  case Nil
  then show ?case by (auto simp: dom_def)
next
  case (Cons a toks)
  show ?case
    by (auto simp add: Cons.IH map_of_tf_step dom_def split: option.splits)
qed

lemma count_terms_distinct_aux:
  "distinct (map fst acc) \<Longrightarrow> distinct (map fst (foldl tf_step acc toks))"
  by (induction toks arbitrary: acc) (simp_all add: distinct_update tf_step_def)

lemma map_of_count_terms:
  "map_of (count_terms toks) t = (if t \<in> set toks then Some (count_list toks t) else None)"
  unfolding count_terms_def using count_terms_aux[of "[]" toks t] by simp

lemma distinct_count_terms: "distinct (map fst (count_terms toks))"
  unfolding count_terms_def by (rule count_terms_distinct_aux) simp

lemma map_of_weigh_step:
  "map_of (weigh_step vocab n acc (k, c)) t =
     (if t = k then (case map_of vocab k of None \<Rightarrow> map_of acc k
                     | Some row \<Rightarrow> Some (ln (1 + real c) / ln (1 + real n) * idf row))
      else map_of acc t)"
  by (simp add: weigh_step_def update_conv' Let_def split: option.splits)

lemma weigh_aux:
  "distinct (map fst tf) \<Longrightarrow>
   map_of (foldl (weigh_step vocab n) acc tf) t =
   (case map_of tf t of
      None \<Rightarrow> map_of acc t
    | Some count \<Rightarrow>
       (case map_of vocab t of
          None \<Rightarrow> map_of acc t
        | Some row \<Rightarrow> Some (ln (1 + real count) / ln (1 + real n) * idf row)))"
proof (induction tf arbitrary: acc)
  case Nil
  then show ?case by simp
next
  case (Cons p tf)
  obtain k c where p: "p = (k, c)" by (cases p)
  from Cons.prems p have nk: "map_of tf k = None" and d: "distinct (map fst tf)"
    by (auto simp: map_of_eq_None_iff)
  show ?case
    using nk by (auto simp add: p Cons.IH[OF d] map_of_weigh_step split: option.splits)
qed

lemma weigh_distinct_aux:
  "distinct (map fst acc) \<Longrightarrow> distinct (map fst (foldl (weigh_step vocab n) acc tf))"
  by (induction tf arbitrary: acc)
     (auto simp add: distinct_update weigh_step_def Let_def split: option.splits)

lemma map_of_buildQueryVector:
  "map_of (buildQueryVector q vocab) t =
     (if t \<in> set (tokenize q) then
        (case map_of vocab t of
           None \<Rightarrow> None
         | Some row \<Rightarrow>
             Some (ln (1 + real (count_list (tokenize q) t)) /
                   ln (1 + real (length (tokenize q))) * idf row))
      else None)"
  unfolding buildQueryVector_def Let_def
  by (simp add: weigh_aux[OF distinct_count_terms] map_of_count_terms split: option.splits)

lemma distinct_buildQueryVector: "distinct (map fst (buildQueryVector q vocab))"
  unfolding buildQueryVector_def Let_def by (rule weigh_distinct_aux) simp

lemma tokenize_empty: "tokenize [] = []"
  by code_simp

lemma buildQueryVector_empty: "buildQueryVector [] vocab = []"
  unfolding buildQueryVector_def Let_def tokenize_empty count_terms_def by simp

lemma ln_ratio_neq: "ln (3::real) / ln 4 * 0.8 \<noteq> (2 / 3) * 0.8"
proof
  assume "ln (3::real) / ln 4 * 0.8 = (2 / 3) * 0.8"
  then have "ln (3::real) / ln 4 = 2 / 3" by simp
  moreover have "ln (4::real) > 0" by simp
  ultimately have "3 * ln (3::real) = 2 * ln 4" by (simp add: field_simps)
  moreover have "ln (27::real) = 3 * ln 3" using ln_realpow[of "3::real" 3] by simp
  moreover have "ln (16::real) = 2 * ln 4" using ln_realpow[of "4::real" 2] by simp
  ultimately have "ln (27::real) = ln 16" by simp
  then have "(27::real) = 16"
    by (subst (asm) ln_inj_iff) simp_all
  then show False by simp
qed

lemma buildQueryVector_example:
  "buildQueryVector ''query context query''
     [(''query'', \<lparr>term = ''query'', idf = 0.8, doc_count = 1, term_count = 1\<rparr>)]
   = [(''query'', ln 3 / ln 4 * 0.8)]"
proof -
  have t: "tokenize ''query context query'' = [''query'', ''context'', ''query'']"
    by code_simp
  have c: "count_terms [''query'', ''context'', ''query''] = [(''query'', 2), (''context'', 1)]"
    by code_simp
  show ?thesis
    unfolding buildQueryVector_def Let_def t c by (simp add: weigh_step_def)
qed

text \<open>
  C6. The query vector maps each distinct token of the query that has a vocabulary row to
  \<open>log(1 + count) / log(1 + total) * idf\<close>, where \<open>count\<close> is the number of
  occurrences of the token among the query's tokens and \<open>total\<close> the number of the
  query's tokens; every other string is absent from the vector; each key occurs once; the
  empty query gives the empty vector; and the query "query context query" against the
  vocabulary with the one term "query" of idf 0.8 gives the one component
  \<open>log 3 / log 4 * 0.8\<close>, which is not \<open>2/3 * 0.8\<close>.
\<close>

theorem buildQueryVector_log_tf:
  "map_of (buildQueryVector q vocab) t =
     (if t \<in> set (tokenize q) then
        (case map_of vocab t of
           None \<Rightarrow> None
         | Some row \<Rightarrow>
             Some (ln (1 + real (count_list (tokenize q) t)) /
                   ln (1 + real (length (tokenize q))) * idf row))
      else None)
   \<and> distinct (map fst (buildQueryVector q vocab))
   \<and> buildQueryVector [] vocab = []
   \<and> buildQueryVector ''query context query''
        [(''query'', \<lparr>term = ''query'', idf = 0.8, doc_count = 1, term_count = 1\<rparr>)]
      = [(''query'', ln 3 / ln 4 * 0.8)]
   \<and> ln (3::real) / ln 4 * 0.8 \<noteq> (2 / 3) * 0.8"
  using map_of_buildQueryVector distinct_buildQueryVector buildQueryVector_empty
    buildQueryVector_example ln_ratio_neq
  by blast

section \<open>File nodes carry no relationships\<close>

lemma getFileNodes_fixture:
  "getFileNodes fixture (Some ''graph_build.R'') = Inr [node_info_of_row (hd fixture_nodes)]"
  by code_simp

text \<open>
  C10. Every entry that \<open>getFileNodes\<close> returns has empty \<open>callers\<close>, \<open>callees\<close>
  and \<open>tests\<close> lists, whatever edges the store holds.
\<close>

theorem getFileNodes_no_relationships:
  "getFileNodes g decodedPath = Inr infos \<Longrightarrow>
   \<forall>i\<in>set infos. callers i = [] \<and> callees i = [] \<and> tests i = []"
  by (auto simp: getFileNodes_def node_info_of_row_def split: option.splits)

theorem getFileNodes_no_relationships_witness:
  "getFileNodes fixture (Some ''graph_build.R'') = Inr [node_info_of_row (hd fixture_nodes)]
   \<and> select_callees fixture ''build_rrlm_graph'' 20 = [''query_context'', ''export_to_sqlite'']
   \<and> select_callers fixture ''build_rrlm_graph'' 20 = [''query_context'']
   \<and> callers (node_info_of_row (hd fixture_nodes)) = []
   \<and> callees (node_info_of_row (hd fixture_nodes)) = []
   \<and> tests (node_info_of_row (hd fixture_nodes)) = []"
proof -
  have c1: "select_callees fixture ''build_rrlm_graph'' 20 = [''query_context'', ''export_to_sqlite'']"
    by code_simp
  have c2: "select_callers fixture ''build_rrlm_graph'' 20 = [''query_context'']"
    by code_simp
  show ?thesis
    using getFileNodes_no_relationships[OF getFileNodes_fixture] getFileNodes_fixture c1 c2
    by simp
qed

section \<open>The retrieval mode tag\<close>

text \<open>
  C2. The claim asks for a \<open>retrieval_mode\<close> tag on every result. In the code no
  result of \<open>queryContext\<close> has the property: it is missing for every input.
\<close>

theorem queryContext_retrieval_mode_unset:
  "retrieval_mode (queryContext g q seedNodeName budgetTokens maxDepth maxNodes) = None"
  by (simp add: queryContext_def no_graph_data_def Let_def split: option.splits prod.splits)

section \<open>Task traces\<close>

lemma fold_max_ge: "(a::nat) \<le> fold max xs a"
proof (induction xs arbitrary: a)
  case Nil
  show ?case by simp
next
  case (Cons x xs)
  have "a \<le> max x a" by simp
  also have "\<dots> \<le> fold max xs (max x a)" by (rule Cons.IH)
  finally show ?case by simp
qed

lemma fold_max_member: "x \<in> set xs \<Longrightarrow> x \<le> fold max xs (a::nat)"
proof (induction xs arbitrary: a)
  case Nil
  then show ?case by simp
next
  case (Cons y ys)
  show ?case
  proof (cases "x = y")
    case True
    have "x \<le> max y a" using True by simp
    also have "\<dots> \<le> fold max ys (max y a)" by (rule fold_max_ge)
    finally show ?thesis by simp
  next
    case False
    with Cons.prems have "x \<in> set ys" by simp
    then show ?thesis using Cons.IH by simp
  qed
qed

lemma next_trace_id_fresh: "next_trace_id g \<notin> trace_id ` set (task_traces g)"
proof
  assume "next_trace_id g \<in> trace_id ` set (task_traces g)"
  then have "next_trace_id g \<in> set (map trace_id (task_traces g))" by simp
  then have "next_trace_id g \<le> fold max (map trace_id (task_traces g)) (trace_seq g)"
    by (rule fold_max_member)
  then show False by (simp add: next_trace_id_def)
qed

text \<open>
  C8. \<open>addTaskTrace\<close> throws exactly when the polarity is below -1 or above 1, and
  then leaves the store as it was. Otherwise it returns the generated identifier, which no
  stored trace has, and appends exactly one trace that carries this identifier, the
  polarity as given (not clamped) and the current time stamp; the other tables are
  untouched.
\<close>

theorem addTaskTrace_validates_polarity:
  "(isl (fst (addTaskTrace stringify now g q nds pol sessionId)) \<longleftrightarrow> (pol < -1 \<or> pol > 1))
   \<and> ((pol < -1 \<or> pol > 1) \<longrightarrow>
        snd (addTaskTrace stringify now g q nds pol sessionId) = g)
   \<and> (\<not> (pol < -1 \<or> pol > 1) \<longrightarrow>
        fst (addTaskTrace stringify now g q nds pol sessionId) = Inr (next_trace_id g)
        \<and> next_trace_id g \<notin> trace_id ` set (task_traces g)
        \<and> task_traces (snd (addTaskTrace stringify now g q nds pol sessionId)) =
            task_traces g @
              [\<lparr>trace_id = next_trace_id g, query = Some q, nodes_json = Some (stringify nds),
                polarity = pol, session_id = sessionId, created_at = Some now\<rparr>]
        \<and> nodes (snd (addTaskTrace stringify now g q nds pol sessionId)) = nodes g
        \<and> edges (snd (addTaskTrace stringify now g q nds pol sessionId)) = edges g
        \<and> tfidfVocab (snd (addTaskTrace stringify now g q nds pol sessionId)) = tfidfVocab g)"
  using next_trace_id_fresh[of g] by (simp add: addTaskTrace_def Let_def)

theorem addTaskTrace_validates_polarity_witness:
  "isl (fst (addTaskTrace (\<lambda>_. ''[]'') ''2026-02-22T00:00:00.000Z'' fixture ''bad'' [] 1.5 None))
   \<and> snd (addTaskTrace (\<lambda>_. ''[]'') ''2026-02-22T00:00:00.000Z'' fixture ''bad'' [] 1.5 None) = fixture
   \<and> isl (fst (addTaskTrace (\<lambda>_. ''[]'') ''2026-02-22T00:00:00.000Z'' fixture ''bad'' [] (-2) None))
   \<and> fst (addTaskTrace (\<lambda>_. ''[]'') ''2026-02-22T00:00:00.000Z'' fixture ''test task'' [] 0.8
          (Some ''test-session'')) = Inr 1
   \<and> map polarity (task_traces (snd (addTaskTrace (\<lambda>_. ''[]'') ''2026-02-22T00:00:00.000Z''
          fixture ''test task'' [] 0.8 (Some ''test-session'')))) = [0.8]"
proof -
  have n: "next_trace_id fixture = 1"
    by (simp add: next_trace_id_def fixture_def)
  have t: "task_traces fixture = []"
    by (simp add: fixture_def)
  show ?thesis
    using addTaskTrace_validates_polarity[of "\<lambda>_. ''[]''" "''2026-02-22T00:00:00.000Z''" fixture
            "''bad''" "[]" "1.5" None]
          addTaskTrace_validates_polarity[of "\<lambda>_. ''[]''" "''2026-02-22T00:00:00.000Z''" fixture
            "''bad''" "[]" "-2" None]
          addTaskTrace_validates_polarity[of "\<lambda>_. ''[]''" "''2026-02-22T00:00:00.000Z''" fixture
            "''test task''" "[]" "0.8" "Some ''test-session''"]
    by (simp add: n t)
qed

section \<open>The token budget and the greedy prefix\<close>

lemma total_cost_Nil [simp]: "total_cost g [] = 0"
  by (simp add: total_cost_def)

lemma total_cost_Cons [simp]: "total_cost g (n # ns) = block_cost g n + total_cost g ns"
  by (simp add: total_cost_def)

lemma assemble_prefix:
  "\<exists>k\<le>length ns.
     assemble g B ns (cs, ids, u) =
       (cs @ map (formatNodeContext g) (take k ns), ids @ map node_id (take k ns),
        u + total_cost g (take k ns))
     \<and> (\<forall>j. 0 < j \<and> j \<le> k \<longrightarrow> int u + int (total_cost g (take j ns)) \<le> B)
     \<and> (k < length ns \<longrightarrow> int u + int (total_cost g (take (Suc k) ns)) > B)"
proof (induction ns arbitrary: cs ids u)
  case Nil
  show ?case by simp
next
  case (Cons n ns)
  show ?case
  proof (cases "int u + int (block_cost g n) > B")
    case True
    then have "assemble g B (n # ns) (cs, ids, u) = (cs, ids, u)"
      by (simp add: block_cost_def Let_def)
    then show ?thesis using True
      by (intro exI[of _ 0]) simp
  next
    case False
    let ?cs = "cs @ [formatNodeContext g n]" and ?ids = "ids @ [node_id n]"
    let ?u = "u + block_cost g n"
    from Cons.IH[of ?cs ?ids ?u] obtain k where k: "k \<le> length ns"
      and eq: "assemble g B ns (?cs, ?ids, ?u) =
        (?cs @ map (formatNodeContext g) (take k ns), ?ids @ map node_id (take k ns),
         ?u + total_cost g (take k ns))"
      and fit: "\<forall>j. 0 < j \<and> j \<le> k \<longrightarrow> int ?u + int (total_cost g (take j ns)) \<le> B"
      and stop: "k < length ns \<longrightarrow> int ?u + int (total_cost g (take (Suc k) ns)) > B"
      by blast
    have step: "assemble g B (n # ns) (cs, ids, u) = assemble g B ns (?cs, ?ids, ?u)"
      using False by (simp add: block_cost_def Let_def)
    have fit': "\<forall>j. 0 < j \<and> j \<le> Suc k \<longrightarrow> int u + int (total_cost g (take j (n # ns))) \<le> B"
    proof (intro allI impI)
      fix j assume j: "0 < j \<and> j \<le> Suc k"
      then obtain i where i: "j = Suc i" by (cases j) auto
      show "int u + int (total_cost g (take j (n # ns))) \<le> B"
      proof (cases "i = 0")
        case True
        then show ?thesis using False i by simp
      next
        case False
        then have "int ?u + int (total_cost g (take i ns)) \<le> B" using fit i j by simp
        then show ?thesis using i by simp
      qed
    qed
    show ?thesis
      apply (intro exI[of _ "Suc k"])
      using k eq stop fit' step by (simp add: add.assoc)
  qed
qed

text \<open>The loop from its initial state, as \<open>queryContext\<close> runs it.\<close>

lemma assemble_initial:
  obtains k where "k \<le> length ns"
    and "assemble g B ns ([], [], 0) =
           (map (formatNodeContext g) (take k ns), map node_id (take k ns),
            total_cost g (take k ns))"
    and "\<And>j. 0 < j \<Longrightarrow> j \<le> k \<Longrightarrow> int (total_cost g (take j ns)) \<le> B"
    and "k < length ns \<Longrightarrow> int (total_cost g (take (Suc k) ns)) > B"
  using assemble_prefix[of ns g B "[]" "[]" 0] by auto

lemma queryContext_found:
  assumes "findSeedNode g q sn = Some sid" "sid \<noteq> []"
    and "assemble g B (map fst (scored_candidates g q sid md mn)) ([], [], 0) = (cs, ids, u)"
  shows "node_ids (queryContext g q sn B md mn) = ids"
    and "token_estimate (queryContext g q sn B md mn) = u"
    and "seed_node (queryContext g q sn B md mn) = Some sid"
  using assms by (simp_all add: queryContext_def Let_def)

lemma queryContext_not_found:
  assumes "findSeedNode g q sn = None \<or> findSeedNode g q sn = Some []"
  shows "node_ids (queryContext g q sn B md mn) = []"
    and "token_estimate (queryContext g q sn B md mn) = 0"
    and "seed_node (queryContext g q sn B md mn) = None"
  using assms by (auto simp add: queryContext_def no_graph_data_def)

lemma sort_scored_desc: "sorted_wrt (\<lambda>a b. snd a \<ge> snd b) (sort_scored xs)"
proof -
  have "sorted (map (\<lambda>ns. - snd ns) (sort_scored xs))"
    unfolding sort_scored_def by (rule sorted_sort_key)
  then show ?thesis
    by (simp add: sorted_wrt_map)
qed

lemma buildQueryVector_no_vocab: "buildQueryVector q [] = []"
proof -
  have "foldl (weigh_step [] n) [] tf = []" for n tf
    by (induction tf) (simp_all add: weigh_step_def split: prod.splits)
  then show ?thesis by (simp add: buildQueryVector_def Let_def)
qed

lemma star_seed: "findSeedNode star_graph q (Some ''hub'') = Some ''n_hub''"
  by (simp add: findSeedNode_def name_tier_def select_node_by_name_def star_graph_def
      star_hub_def plain_node_def)

lemma star_bfs:
  "BFS_SQL star_graph ''n_hub'' 3 80 = [(star_hub, 0), (star_wide, 1), (star_leaf, 1)]"
  by code_simp

lemma star_scored:
  "scored_candidates star_graph q ''n_hub'' 3 80 =
     [(star_hub, 9 / 20), (star_wide, 19 / 60), (star_leaf, 13 / 60)]"
proof -
  have v: "tfidfVocab star_graph = []" by (simp add: star_graph_def)
  show ?thesis
    unfolding scored_candidates_def star_bfs buildQueryVector_no_vocab v Let_def
    by (simp add: qVecArr_of_def score_node_def semScore_of_def sort_scored_def
        star_hub_def star_wide_def star_leaf_def plain_node_def)
qed

lemma star_costs:
  "block_cost star_graph star_hub = 11"
  "block_cost star_graph star_wide = 33"
  "block_cost star_graph star_leaf = 10"
  unfolding block_cost_def by code_simp+

lemma star_ids:
  "node_id star_hub = ''n_hub''" "node_id star_wide = ''n_wide''" "node_id star_leaf = ''n_leaf''"
  by (simp_all add: star_hub_def star_wide_def star_leaf_def plain_node_def)

lemma star_assemble:
  "assemble star_graph 25 [star_hub, star_wide, star_leaf] ([], [], 0) =
     ([formatNodeContext star_graph star_hub], [''n_hub''], 11)"
  by code_simp

lemma star_result:
  "node_ids (queryContext star_graph q (Some ''hub'') 25 3 80) = [''n_hub'']"
  "token_estimate (queryContext star_graph q (Some ''hub'') 25 3 80) = 11"
  "seed_node (queryContext star_graph q (Some ''hub'') 25 3 80) = Some ''n_hub''"
  by (simp_all add: queryContext_def star_seed star_scored star_assemble Let_def
      del: assemble.simps)

text \<open>
  C1. For a budget \<open>B\<close> that is not negative, the \<open>token_estimate\<close> of the result
  of \<open>queryContext\<close> is at most \<open>B\<close>, and it is the sum of the estimated costs
  \<open>ceil(length / 3.5)\<close> of the rendered blocks of the accepted nodes.
\<close>

theorem queryContext_within_budget:
  assumes "0 \<le> B"
  shows "int (token_estimate (queryContext g q sn B md mn)) \<le> B
    \<and> (\<exists>accepted. node_ids (queryContext g q sn B md mn) = map node_id accepted
          \<and> token_estimate (queryContext g q sn B md mn) = total_cost g accepted)"
proof (cases "findSeedNode g q sn = None \<or> findSeedNode g q sn = Some []")
  case True
  from queryContext_not_found[OF True, of B md mn] assms show ?thesis
    by (intro conjI exI[of _ "[]"]) simp_all
next
  case False
  then obtain sid where sid: "findSeedNode g q sn = Some sid" "sid \<noteq> []" by auto
  let ?ns = "map fst (scored_candidates g q sid md mn)"
  obtain k where k: "k \<le> length ?ns"
    and eq: "assemble g B ?ns ([], [], 0) =
           (map (formatNodeContext g) (take k ?ns), map node_id (take k ?ns),
            total_cost g (take k ?ns))"
    and fit: "\<And>j. 0 < j \<Longrightarrow> j \<le> k \<Longrightarrow> int (total_cost g (take j ?ns)) \<le> B"
    by (rule assemble_initial[of ?ns g B]) blast
  have ids: "node_ids (queryContext g q sn B md mn) = map node_id (take k ?ns)"
    and est: "token_estimate (queryContext g q sn B md mn) = total_cost g (take k ?ns)"
    using queryContext_found[OF sid eq] by simp_all
  have "int (total_cost g (take k ?ns)) \<le> B"
  proof (cases "k = 0")
    case True
    then show ?thesis using assms by simp
  next
    case False
    then show ?thesis using fit[of k] by simp
  qed
  then show ?thesis using ids est by auto
qed

theorem queryContext_within_budget_witness:
  "int (token_estimate (queryContext star_graph ''tidy the data'' (Some ''hub'') 25 3 80)) \<le> 25
   \<and> token_estimate (queryContext star_graph ''tidy the data'' (Some ''hub'') 25 3 80) = 11
   \<and> node_ids (queryContext star_graph ''tidy the data'' (Some ''hub'') 25 3 80) = [''n_hub'']"
  using queryContext_within_budget[of 25 star_graph "''tidy the data''" "Some ''hub''" 3 80]
    star_result[of "''tidy the data''"]
  by simp

text \<open>
  C9. When a seed is found, the candidates are walked in descending order of their blended
  score, and the accepted nodes are a prefix of that list: every non-empty prefix up to the
  accepted one fits the budget, and if a candidate is left, the accepted prefix together
  with the next candidate exceeds the budget. No candidate after the first rejected one is
  accepted, whatever it costs.
\<close>

theorem queryContext_accepts_prefix:
  assumes "findSeedNode g q sn = Some sid" and "sid \<noteq> []"
  shows "sorted_wrt (\<lambda>a b. snd a \<ge> snd b) (scored_candidates g q sid md mn)
    \<and> length (node_ids (queryContext g q sn B md mn)) \<le> length (scored_candidates g q sid md mn)
    \<and> node_ids (queryContext g q sn B md mn) =
        map node_id (take (length (node_ids (queryContext g q sn B md mn)))
                       (map fst (scored_candidates g q sid md mn)))
    \<and> (\<forall>j. 0 < j \<and> j \<le> length (node_ids (queryContext g q sn B md mn)) \<longrightarrow>
          int (total_cost g (take j (map fst (scored_candidates g q sid md mn)))) \<le> B)
    \<and> (length (node_ids (queryContext g q sn B md mn)) < length (scored_candidates g q sid md mn) \<longrightarrow>
          int (total_cost g (take (Suc (length (node_ids (queryContext g q sn B md mn))))
                               (map fst (scored_candidates g q sid md mn)))) > B)"
proof -
  let ?ns = "map fst (scored_candidates g q sid md mn)"
  obtain k where k: "k \<le> length ?ns"
    and eq: "assemble g B ?ns ([], [], 0) =
           (map (formatNodeContext g) (take k ?ns), map node_id (take k ?ns),
            total_cost g (take k ?ns))"
    and fit: "\<And>j. 0 < j \<Longrightarrow> j \<le> k \<Longrightarrow> int (total_cost g (take j ?ns)) \<le> B"
    and stop: "k < length ?ns \<Longrightarrow> int (total_cost g (take (Suc k) ?ns)) > B"
    by (rule assemble_initial[of ?ns g B]) blast
  have ids: "node_ids (queryContext g q sn B md mn) = map node_id (take k ?ns)"
    using queryContext_found[OF assms eq] by simp
  have len: "length (node_ids (queryContext g q sn B md mn)) = k"
    using ids k by simp
  have srt: "sorted_wrt (\<lambda>a b. snd a \<ge> snd b) (scored_candidates g q sid md mn)"
    unfolding scored_candidates_def Let_def by (rule sort_scored_desc)
  show ?thesis
    unfolding len using srt k ids fit stop by simp
qed


theorem queryContext_accepts_prefix_witness:
  "map (\<lambda>c. node_id (fst c)) (scored_candidates star_graph ''tidy the data'' ''n_hub'' 3 80)
     = [''n_hub'', ''n_wide'', ''n_leaf'']
   \<and> map (\<lambda>c. block_cost star_graph (fst c))
        (scored_candidates star_graph ''tidy the data'' ''n_hub'' 3 80) = [11, 33, 10]
   \<and> node_ids (queryContext star_graph ''tidy the data'' (Some ''hub'') 25 3 80) = [''n_hub'']
   \<and> int (total_cost star_graph (take 2 (map fst
        (scored_candidates star_graph ''tidy the data'' ''n_hub'' 3 80)))) > 25"
proof -
  have "''n_hub'' \<noteq> []" by simp
  from queryContext_accepts_prefix[OF star_seed this, of "''tidy the data''" 3 80 25]
  show ?thesis
    by (simp add: star_result star_scored total_cost_def star_costs star_ids)
qed

section \<open>Breadth-first traversal: minimum depth, once per node\<close>

lemma set_bfs_expand:
  "set (bfs_expand es fr) = {target_id e | e. e \<in> set es \<and> source_id e \<in> set fr}"
  by (auto simp: bfs_expand_def)

lemma walk_Suc:
  "walk es s (Suc k) n \<longleftrightarrow> (\<exists>e\<in>set es. source_id e = s \<and> walk es (target_id e) k n)"
  by (simp add: list_ex_iff)

lemma bfs_rows_set:
  "(n, j) \<in> set (bfs_rows es md d fr) \<longleftrightarrow>
     d \<le> j \<and> (j = d \<or> int j \<le> md) \<and> (\<exists>s\<in>set fr. walk es s (j - d) n)"
proof (induction es md d fr arbitrary: n j rule: bfs_rows.induct)
  case (1 es md d fr)
  have here: "(n, j) \<in> set (map (\<lambda>n. (n, d)) fr) \<longleftrightarrow> j = d \<and> n \<in> set fr"
    by auto
  show ?case
  proof (cases "int d < md")
    case False
    then have "bfs_rows es md d fr = map (\<lambda>n. (n, d)) fr"
      by (subst bfs_rows.simps) simp
    then show ?thesis using False here by auto
  next
    case True
    have unfold: "bfs_rows es md d fr =
        map (\<lambda>n. (n, d)) fr @ bfs_rows es md (Suc d) (bfs_expand es fr)"
      using True by (subst bfs_rows.simps) simp
    have deeper: "(n, j) \<in> set (bfs_rows es md (Suc d) (bfs_expand es fr)) \<longleftrightarrow>
        Suc d \<le> j \<and> (j = Suc d \<or> int j \<le> md) \<and>
        (\<exists>s\<in>set (bfs_expand es fr). walk es s (j - Suc d) n)"
      using "1.IH"[OF True] .
    have step: "(\<exists>s\<in>set (bfs_expand es fr). walk es s (j - Suc d) n) \<longleftrightarrow>
        (\<exists>s\<in>set fr. walk es s (j - d) n)" if "Suc d \<le> j"
    proof -
      from that have jd: "j - d = Suc (j - Suc d)" by simp
      show ?thesis
        unfolding jd walk_Suc set_bfs_expand by blast
    qed
    show ?thesis
    proof (cases "j = d")
      case True
      then show ?thesis unfolding unfold using deeper here by auto
    next
      case False
      then have "(n, j) \<in> set (bfs_rows es md d fr) \<longleftrightarrow>
          (n, j) \<in> set (bfs_rows es md (Suc d) (bfs_expand es fr))"
        unfolding unfold using here by auto
      also have "\<dots> \<longleftrightarrow> Suc d \<le> j \<and> int j \<le> md \<and> (\<exists>s\<in>set fr. walk es s (j - d) n)"
        unfolding deeper using step True by auto
      finally show ?thesis using False by auto
    qed
  qed
qed

lemma bfs_rows_seed:
  "(n, j) \<in> set (bfs_rows es md 0 [s]) \<longleftrightarrow> (j = 0 \<or> int j \<le> md) \<and> walk es s j n"
  by (simp add: bfs_rows_set)

lemma min_depth_None: "min_depth rows i = None \<longleftrightarrow> (\<forall>j. (i, j) \<notin> set rows)"
proof -
  have "map snd (filter (\<lambda>r. fst r = i) rows) = [] \<longleftrightarrow> (\<forall>j. (i, j) \<notin> set rows)"
    by (auto simp: filter_empty_conv)
  then show ?thesis
    by (auto simp: min_depth_def split: list.splits)
qed

lemma min_depth_Some:
  "min_depth rows i = Some d \<longleftrightarrow> (i, d) \<in> set rows \<and> (\<forall>j. (i, j) \<in> set rows \<longrightarrow> d \<le> j)"
proof -
  let ?ds = "map snd (filter (\<lambda>r. fst r = i) rows)"
  have mem: "j \<in> set ?ds \<longleftrightarrow> (i, j) \<in> set rows" for j
    by force
  show ?thesis
  proof (cases ?ds)
    case Nil
    then have "\<forall>j. (i, j) \<notin> set rows" using mem by simp
    then show ?thesis using Nil by (simp add: min_depth_def)
  next
    case (Cons x xs)
    then have md: "min_depth rows i = Some (Min (set ?ds))"
      using Min.set_eq_fold[of x xs] by (simp add: min_depth_def)
    have ne: "set ?ds \<noteq> {}" using Cons by simp
    have "Min (set ?ds) = d \<longleftrightarrow> d \<in> set ?ds \<and> (\<forall>j\<in>set ?ds. d \<le> j)"
      using ne by (auto simp: Min_eq_iff)
    then show ?thesis unfolding md using mem by auto
  qed
qed

lemma set_bfs_joined:
  "(n, d) \<in> set (bfs_joined g s md) \<longleftrightarrow>
     n \<in> set (nodes g) \<and> min_depth (bfs_rows (edges g) md 0 [s]) (node_id n) = Some d"
  by (auto simp: bfs_joined_def Let_def split: option.splits)

lemma sorted_bfs_joined: "sorted (map bfs_order_key (bfs_joined g s md))"
  unfolding bfs_joined_def Let_def by (rule sorted_sort_key)

lemma concat_joined_distinct:
  "distinct (map node_id ns) \<Longrightarrow>
   distinct (map (\<lambda>r. node_id (fst r))
     (concat (map (\<lambda>n. case f (node_id n) of None \<Rightarrow> [] | Some d \<Rightarrow> [(n, d :: nat)]) ns)))"
proof (induction ns)
  case Nil
  then show ?case by simp
next
  case (Cons a ns)
  have sub: "(\<lambda>r. node_id (fst r)) `
      set (concat (map (\<lambda>n. case f (node_id n) of None \<Rightarrow> [] | Some d \<Rightarrow> [(n, d)]) ns))
      \<subseteq> node_id ` set ns"
    by (auto split: option.splits)
  have "node_id a \<notin> node_id ` set ns" using Cons.prems by simp
  with sub have "node_id a \<notin> (\<lambda>r. node_id (fst r)) `
      set (concat (map (\<lambda>n. case f (node_id n) of None \<Rightarrow> [] | Some d \<Rightarrow> [(n, d)]) ns))"
    by blast
  moreover have "distinct (map (\<lambda>r. node_id (fst r))
     (concat (map (\<lambda>n. case f (node_id n) of None \<Rightarrow> [] | Some d \<Rightarrow> [(n, d)]) ns)))"
    using Cons by simp
  ultimately show ?case
    by (cases "f (node_id a)") simp_all
qed

lemma distinct_bfs_joined:
  assumes "distinct (map node_id (nodes g))"
  shows "distinct (map (\<lambda>r. node_id (fst r)) (bfs_joined g s md))"
proof -
  let ?xs = "concat (map (\<lambda>n. case min_depth (bfs_rows (edges g) md 0 [s]) (node_id n) of
                   None \<Rightarrow> [] | Some d \<Rightarrow> [(n, d)]) (nodes g))"
  have "distinct (map (\<lambda>r. node_id (fst r)) ?xs)"
    using assms by (rule concat_joined_distinct)
  then have "distinct ?xs" and "inj_on (\<lambda>r. node_id (fst r)) (set ?xs)"
    by (simp_all add: distinct_map)
  then show ?thesis
    unfolding bfs_joined_def Let_def distinct_map by simp
qed

lemma bfs_order_key_le:
  "bfs_order_key a \<le> bfs_order_key b \<longleftrightarrow> bfs_before a b"
  by (cases "pagerank (fst a)"; cases "pagerank (fst b)")
     (auto simp: bfs_order_key_def bfs_before_def pagerank_desc_key_def less_eq_prod_def)

lemma sorted_wrt_bfs_joined: "sorted_wrt bfs_before (bfs_joined g s md)"
proof -
  have "sorted_wrt (\<lambda>a b. bfs_order_key a \<le> bfs_order_key b) (bfs_joined g s md)"
    using sorted_bfs_joined[of g s md] by (simp add: sorted_map)
  then show ?thesis by (simp add: bfs_order_key_le)
qed

lemma sorted_wrt_take: "sorted_wrt P xs \<Longrightarrow> sorted_wrt P (take k xs)"
  by (metis append_take_drop_id sorted_wrt_append)

lemma distinct_map_take: "distinct (map f xs) \<Longrightarrow> distinct (map f (take k xs))"
  by (simp add: take_map[symmetric])

lemma set_sql_limit: "set (sql_limit k xs) \<subseteq> set xs"
  by (auto simp: sql_limit_def dest: in_set_takeD)


lemma BFS_SQL_limit:
  "BFS_SQL g s md mn =
     (if mn < 0 then BFS_SQL g s md (- 1) else take (nat mn) (BFS_SQL g s md (- 1)))"
  by (simp add: BFS_SQL_def sql_limit_def)

lemma BFS_SQL_unlimited: "BFS_SQL g s md (- 1) = bfs_joined g s md"
  by (simp add: BFS_SQL_def sql_limit_def)

lemma set_BFS_SQL: "set (BFS_SQL g s md mn) \<subseteq> set (bfs_joined g s md)"
  unfolding BFS_SQL_def by (rule set_sql_limit)

lemma bfs_joined_depth:
  assumes "(n, d) \<in> set (bfs_joined g s md)"
  shows "n \<in> set (nodes g)" and "walk (edges g) s d (node_id n)"
    and "\<forall>k<d. \<not> walk (edges g) s k (node_id n)" and "d = 0 \<or> int d \<le> md"
proof -
  let ?rows = "bfs_rows (edges g) md 0 [s]"
  from assms have n: "n \<in> set (nodes g)" and m: "min_depth ?rows (node_id n) = Some d"
    by (simp_all add: set_bfs_joined)
  from m have inr: "(node_id n, d) \<in> set ?rows"
    and least: "\<And>j. (node_id n, j) \<in> set ?rows \<Longrightarrow> d \<le> j"
    by (simp_all add: min_depth_Some)
  from inr have w: "walk (edges g) s d (node_id n)" and b: "d = 0 \<or> int d \<le> md"
    by (simp_all add: bfs_rows_seed)
  show "n \<in> set (nodes g)" by (rule n)
  show "walk (edges g) s d (node_id n)" by (rule w)
  show "d = 0 \<or> int d \<le> md" by (rule b)
  show "\<forall>k<d. \<not> walk (edges g) s k (node_id n)"
  proof (intro allI impI notI)
    fix k assume kd: "k < d" and wk: "walk (edges g) s k (node_id n)"
    from kd b have "int k \<le> md" by auto
    with wk have "(node_id n, k) \<in> set ?rows" by (simp add: bfs_rows_seed)
    from least[OF this] kd show False by simp
  qed
qed

lemma bfs_joined_complete:
  assumes "n \<in> set (nodes g)" and "walk (edges g) s k (node_id n)" and "k = 0 \<or> int k \<le> md"
  shows "\<exists>d\<le>k. (n, d) \<in> set (bfs_joined g s md)"
proof -
  let ?rows = "bfs_rows (edges g) md 0 [s]"
  from assms have inr: "(node_id n, k) \<in> set ?rows" by (simp add: bfs_rows_seed)
  then have "min_depth ?rows (node_id n) \<noteq> None" by (auto simp: min_depth_None)
  then obtain d where d: "min_depth ?rows (node_id n) = Some d" by auto
  then have "d \<le> k" using inr by (simp add: min_depth_Some)
  moreover have "(n, d) \<in> set (bfs_joined g s md)" using d assms(1) by (simp add: set_bfs_joined)
  ultimately show ?thesis by blast
qed

lemma bfs_cycle_example:
  "map (\<lambda>r. (node_id (fst r), snd r)) (BFS_SQL cycle_graph ''A'' 5 80) =
     [(''A'', 0), (''B'', 1), (''C'', 2)]"
  by code_simp

text \<open>
  C4. For every seed, depth bound and node limit, each row of the traversal is a node of
  the store together with the length of a shortest path from the seed that follows edges
  from source to target (no shorter path exists); the depth is 0 or at most the depth
  bound; a node identifier occurs in at most one row (identifiers being the primary key);
  the rows are ordered by depth ascending, then centrality descending; with a node limit
  that is not negative the result is the first so many rows of the unlimited result, which
  holds every node of the store that a path within the depth bound reaches. On the cycle
  A \<open>\<rightarrow>\<close> B \<open>\<rightarrow>\<close> C \<open>\<rightarrow>\<close> A, from A with depth bound 5, the rows are A at depth 0,
  B at depth 1 and C at depth 2. The traversal is a total function, so it terminates.
\<close>

theorem BFS_SQL_minimum_depth_once:
  "(\<forall>n d. (n, d) \<in> set (BFS_SQL g s md mn) \<longrightarrow>
      n \<in> set (nodes g) \<and> walk (edges g) s d (node_id n) \<and>
      (\<forall>k<d. \<not> walk (edges g) s k (node_id n)) \<and> (d = 0 \<or> int d \<le> md))
   \<and> (distinct (map node_id (nodes g)) \<longrightarrow>
        distinct (map (\<lambda>r. node_id (fst r)) (BFS_SQL g s md mn)))
   \<and> sorted_wrt bfs_before (BFS_SQL g s md mn)
   \<and> BFS_SQL g s md mn =
        (if mn < 0 then BFS_SQL g s md (- 1) else take (nat mn) (BFS_SQL g s md (- 1)))
   \<and> (\<forall>n k. n \<in> set (nodes g) \<and> walk (edges g) s k (node_id n) \<and> (k = 0 \<or> int k \<le> md) \<longrightarrow>
        n \<in> fst ` set (BFS_SQL g s md (- 1)))
   \<and> map (\<lambda>r. (node_id (fst r), snd r)) (BFS_SQL cycle_graph ''A'' 5 80) =
        [(''A'', 0), (''B'', 1), (''C'', 2)]"
proof -
  have depth: "\<forall>n d. (n, d) \<in> set (BFS_SQL g s md mn) \<longrightarrow>
      n \<in> set (nodes g) \<and> walk (edges g) s d (node_id n) \<and>
      (\<forall>k<d. \<not> walk (edges g) s k (node_id n)) \<and> (d = 0 \<or> int d \<le> md)"
  proof (intro allI impI)
    fix n d assume "(n, d) \<in> set (BFS_SQL g s md mn)"
    then have in_joined: "(n, d) \<in> set (bfs_joined g s md)" using set_BFS_SQL by blast
    from bfs_joined_depth[OF in_joined]
    show "n \<in> set (nodes g) \<and> walk (edges g) s d (node_id n) \<and>
      (\<forall>k<d. \<not> walk (edges g) s k (node_id n)) \<and> (d = 0 \<or> int d \<le> md)"
      by blast
  qed
  have once: "distinct (map node_id (nodes g)) \<longrightarrow>
        distinct (map (\<lambda>r. node_id (fst r)) (BFS_SQL g s md mn))"
  proof
    assume "distinct (map node_id (nodes g))"
    then have "distinct (map (\<lambda>r. node_id (fst r)) (bfs_joined g s md))"
      by (rule distinct_bfs_joined)
    then show "distinct (map (\<lambda>r. node_id (fst r)) (BFS_SQL g s md mn))"
      by (simp add: BFS_SQL_def sql_limit_def distinct_map_take)
  qed
  have ordered: "sorted_wrt bfs_before (BFS_SQL g s md mn)"
    using sorted_wrt_bfs_joined[of g s md]
    by (simp add: BFS_SQL_def sql_limit_def sorted_wrt_take)
  have complete: "\<forall>n k. n \<in> set (nodes g) \<and> walk (edges g) s k (node_id n) \<and>
        (k = 0 \<or> int k \<le> md) \<longrightarrow> n \<in> fst ` set (BFS_SQL g s md (- 1))"
  proof (intro allI impI)
    fix n k
    assume "n \<in> set (nodes g) \<and> walk (edges g) s k (node_id n) \<and> (k = 0 \<or> int k \<le> md)"
    then obtain d where "(n, d) \<in> set (bfs_joined g s md)"
      using bfs_joined_complete[of n g s k md] by blast
    then show "n \<in> fst ` set (BFS_SQL g s md (- 1))"
      unfolding BFS_SQL_unlimited by force
  qed
  from depth once ordered BFS_SQL_limit[of g s md mn] complete bfs_cycle_example
  show ?thesis by blast
qed

lemma cycle_ids_distinct: "distinct (map node_id (nodes cycle_graph))"
  by (simp add: cycle_graph_def plain_node_def)

lemma cycle_bfs_rows:
  "BFS_SQL cycle_graph ''A'' 5 80 =
     [(plain_node ''A'' ''a_fn'' (Some 0.3) None, 0),
      (plain_node ''B'' ''b_fn'' (Some 0.2) None, 1),
      (plain_node ''C'' ''c_fn'' (Some 0.1) None, 2)]"
  by code_simp

lemma cycle_bfs_limit2:
  "BFS_SQL cycle_graph ''A'' 5 2 =
     [(plain_node ''A'' ''a_fn'' (Some 0.3) None, 0),
      (plain_node ''B'' ''b_fn'' (Some 0.2) None, 1)]"
  by code_simp

theorem BFS_SQL_minimum_depth_once_witness:
  "map (\<lambda>r. (node_id (fst r), snd r)) (BFS_SQL cycle_graph ''A'' 5 80) =
     [(''A'', 0), (''B'', 1), (''C'', 2)]
   \<and> distinct (map node_id (nodes cycle_graph))
   \<and> distinct (map (\<lambda>r. node_id (fst r)) (BFS_SQL cycle_graph ''A'' 5 80))
   \<and> walk (edges cycle_graph) ''A'' 2 ''C''
   \<and> \<not> walk (edges cycle_graph) ''A'' 1 ''C''
   \<and> \<not> walk (edges cycle_graph) ''A'' 0 ''C''
   \<and> walk (edges cycle_graph) ''A'' 3 ''A''
   \<and> map (\<lambda>r. (node_id (fst r), snd r)) (BFS_SQL cycle_graph ''A'' 5 2) =
        [(''A'', 0), (''B'', 1)]"
proof -
  have c: "(plain_node ''C'' ''c_fn'' (Some 0.1) None, 2) \<in> set (BFS_SQL cycle_graph ''A'' 5 80)"
    by (simp add: cycle_bfs_rows)
  have w3: "walk (edges cycle_graph) ''A'' 3 ''A''"
    by code_simp
  have idc: "node_id (plain_node ''C'' ''c_fn'' (Some 0.1) None) = ''C''"
    by (simp add: plain_node_def)
  from BFS_SQL_minimum_depth_once[of cycle_graph "''A''" 5 80]
  have depth: "\<forall>n d. (n, d) \<in> set (BFS_SQL cycle_graph ''A'' 5 80) \<longrightarrow>
      walk (edges cycle_graph) ''A'' d (node_id n) \<and>
      (\<forall>k<d. \<not> walk (edges cycle_graph) ''A'' k (node_id n))"
    and once: "distinct (map node_id (nodes cycle_graph)) \<longrightarrow>
      distinct (map (\<lambda>r. node_id (fst r)) (BFS_SQL cycle_graph ''A'' 5 80))"
    by blast+
  from depth c idc once cycle_ids_distinct
  have "walk (edges cycle_graph) ''A'' 2 ''C''"
    and "\<forall>k<2. \<not> walk (edges cycle_graph) ''A'' k ''C''"
    and "distinct (map (\<lambda>r. node_id (fst r)) (BFS_SQL cycle_graph ''A'' 5 80))"
    by metis+
  moreover from this(2) have "\<not> walk (edges cycle_graph) ''A'' 1 ''C''"
    and "\<not> walk (edges cycle_graph) ''A'' 0 ''C''"
    by (metis one_less_numeral_iff semiring_norm(76), metis zero_less_numeral)
  ultimately show ?thesis
    using w3 cycle_ids_distinct bfs_cycle_example
    by (simp add: cycle_bfs_limit2 plain_node_def)
qed

lemma BFS_SQL_contains_seed:
  assumes "n \<in> set (nodes g)" and "mn \<noteq> 0"
  shows "node_id n \<in> (\<lambda>r. node_id (fst r)) ` set (BFS_SQL g (node_id n) md mn)"
proof -
  let ?L = "bfs_joined g (node_id n) md"
  have "walk (edges g) (node_id n) 0 (node_id n)" by simp
  from bfs_joined_complete[OF assms(1) this, of md]
  have n0: "(n, 0) \<in> set ?L" by simp
  then obtain h t where L: "?L = h # t" by (cases ?L) auto
  have "sorted (map bfs_order_key ?L)" by (rule sorted_bfs_joined)
  with L n0 have "bfs_order_key h \<le> bfs_order_key (n, 0)"
    by (cases "h = (n, 0)") auto
  then have "snd h = 0"
    by (auto simp: bfs_order_key_def less_eq_prod_def)
  moreover have "(fst h, snd h) \<in> set ?L" using L by simp
  ultimately have "walk (edges g) (node_id n) 0 (node_id (fst h))"
    using bfs_joined_depth(2)[of "fst h" "snd h" g "node_id n" md] by simp
  then have hid: "node_id (fst h) = node_id n" by simp
  have "h \<in> set (BFS_SQL g (node_id n) md mn)"
  proof (cases "mn < 0")
    case True
    then show ?thesis by (simp add: BFS_SQL_def sql_limit_def L)
  next
    case False
    with assms(2) obtain k where "nat mn = Suc k" by (cases "nat mn") auto
    then show ?thesis using False by (simp add: BFS_SQL_def sql_limit_def L)
  qed
  then show ?thesis using hid by force
qed

section \<open>Seed resolution\<close>

lemma name_tier_Some:
  "name_tier g sn = Some i \<Longrightarrow> i \<in> node_id ` set (nodes g)"
  by (auto simp: name_tier_def select_node_by_name_def find_Some_iff
      split: option.splits if_splits)

lemma select_fts_row:
  "select_fts g fq = Some (Some row) \<Longrightarrow> row \<in> set (nodes g)"
proof -
  assume a: "select_fts g fq = Some (Some row)"
  then obtain rs where rs: "nodes_fts g fq = FtsRows rs"
    by (cases "nodes_fts g fq") (simp_all add: select_fts_def)
  with a obtain r rest where f: "filter (\<lambda>r. r < length (nodes g)) rs = r # rest"
    and row: "row = nodes g ! r"
    by (cases "filter (\<lambda>r. r < length (nodes g)) rs") (simp_all add: select_fts_def)
  from f have "r \<in> set (filter (\<lambda>r. r < length (nodes g)) rs)" by simp
  then have "r < length (nodes g)" by simp
  then show ?thesis using row by simp
qed

lemma fts_tier_Some:
  "fts_tier g q = Some i \<Longrightarrow> i \<in> node_id ` set (nodes g)"
  by (auto simp: fts_tier_def Let_def dest!: select_fts_row split: option.splits if_splits)

lemma overlap_fold:
  "snd (foldl (overlap_step T) best rows) = Some i \<Longrightarrow>
   snd best = Some i \<or> i \<in> node_id ` set rows"
proof (induction rows arbitrary: best)
  case Nil
  then show ?case by simp
next
  case (Cons r rows)
  from Cons.prems have "snd (foldl (overlap_step T) (overlap_step T best r) rows) = Some i"
    by simp
  from Cons.IH[OF this] show ?case
    by (auto simp: overlap_step_def Let_def split: if_splits)
qed

lemma set_order_by_pagerank_desc [simp]: "set (order_by_pagerank_desc rows) = set rows"
  by (simp add: order_by_pagerank_desc_def)

lemma overlap_tier_Some:
  "overlap_tier g q = Some i \<Longrightarrow> i \<in> node_id ` set (nodes g)"
proof -
  assume "overlap_tier g q = Some i"
  then have "i \<in> node_id ` set (take 200 (order_by_pagerank_desc (nodes g)))"
    using overlap_fold[of "set (tokenize q)" "(0, None)"
        "take 200 (order_by_pagerank_desc (nodes g))" i]
    by (simp add: overlap_tier_def Let_def)
  then show ?thesis
    using set_take_subset[of 200 "order_by_pagerank_desc (nodes g)"] by auto
qed

lemma top_node_None: "top_node g = None \<longleftrightarrow> nodes g = []"
proof -
  have "order_by_pagerank_desc (nodes g) = [] \<longleftrightarrow> nodes g = []"
    by (metis set_order_by_pagerank_desc set_empty)
  then show ?thesis by (auto simp: top_node_def split: list.splits)
qed

lemma top_node_Some:
  assumes "top_node g = Some n"
  shows "n \<in> set (nodes g)"
    and "\<forall>m\<in>set (nodes g). pagerank_desc_key n \<le> pagerank_desc_key m"
proof -
  from assms obtain rest where o: "order_by_pagerank_desc (nodes g) = n # rest"
    by (auto simp: top_node_def split: list.splits)
  then have "n \<in> set (order_by_pagerank_desc (nodes g))" by simp
  then show "n \<in> set (nodes g)" by simp
  have "sorted (map pagerank_desc_key (order_by_pagerank_desc (nodes g)))"
    unfolding order_by_pagerank_desc_def by (rule sorted_sort_key)
  then have "\<forall>m\<in>set rest. pagerank_desc_key n \<le> pagerank_desc_key m"
    unfolding o by simp
  moreover have "set (nodes g) = insert n (set rest)"
    using o by (metis set_order_by_pagerank_desc list.simps(15))
  ultimately show "\<forall>m\<in>set (nodes g). pagerank_desc_key n \<le> pagerank_desc_key m"
    by auto
qed

lemma findSeedNode_member:
  "findSeedNode g q sn = Some i \<Longrightarrow> i \<in> node_id ` set (nodes g)"
  unfolding findSeedNode_def Let_def
  by (auto split: option.splits if_splits
      dest: name_tier_Some fts_tier_Some overlap_tier_Some top_node_Some(1))

lemma findSeedNode_None: "findSeedNode g q sn = None \<longleftrightarrow> nodes g = []"
proof
  assume "findSeedNode g q sn = None"
  then have "top_node g = None"
    unfolding findSeedNode_def Let_def
    by (auto simp: truthy_def split: option.splits if_splits)
  then show "nodes g = []" by (simp add: top_node_None)
next
  assume e: "nodes g = []"
  show "findSeedNode g q sn = None"
  proof (cases "findSeedNode g q sn")
    case None
    then show ?thesis .
  next
    case (Some i)
    from findSeedNode_member[OF this] e show ?thesis by simp
  qed
qed

lemma findSeedNode_last_tier:
  "name_tier g sn = None \<Longrightarrow> fts_tier g q = None \<Longrightarrow> \<not> truthy (overlap_tier g q) \<Longrightarrow>
   findSeedNode g q sn = map_option node_id (top_node g)"
  by (simp add: findSeedNode_def Let_def)

text \<open>
  C5. Seed resolution is a total function: the exception of the full-text tier is caught
  inside it and no other step can fail. It returns no seed exactly when the \<open>nodes\<close>
  table is empty; a seed it returns is the identifier of a node of the store; and when the
  name tier, the full-text tier and the term-overlap tier give nothing, the result is the
  node that comes first in descending centrality. In \<open>queryContext\<close> the seed of the
  result is then missing exactly for the empty store, as long as no node has the empty
  string as its identifier.
\<close>

theorem findSeedNode_null_iff_empty:
  "(findSeedNode g q sn = None \<longleftrightarrow> nodes g = [])
   \<and> (\<forall>i. findSeedNode g q sn = Some i \<longrightarrow> i \<in> node_id ` set (nodes g))
   \<and> (name_tier g sn = None \<and> fts_tier g q = None \<and> \<not> truthy (overlap_tier g q) \<longrightarrow>
        findSeedNode g q sn = map_option node_id (top_node g))
   \<and> (\<forall>n. top_node g = Some n \<longrightarrow>
        n \<in> set (nodes g) \<and> (\<forall>m\<in>set (nodes g). pagerank_desc_key n \<le> pagerank_desc_key m))
   \<and> ((\<forall>n\<in>set (nodes g). node_id n \<noteq> []) \<longrightarrow>
        (seed_node (queryContext g q sn B md mn) = None \<longleftrightarrow> nodes g = []))"
proof -
  have qc: "(\<forall>n\<in>set (nodes g). node_id n \<noteq> []) \<longrightarrow>
        (seed_node (queryContext g q sn B md mn) = None \<longleftrightarrow> nodes g = [])"
  proof
    assume ne: "\<forall>n\<in>set (nodes g). node_id n \<noteq> []"
    show "seed_node (queryContext g q sn B md mn) = None \<longleftrightarrow> nodes g = []"
    proof (cases "findSeedNode g q sn")
      case None
      then show ?thesis
        using findSeedNode_None[of g q sn] by (simp add: queryContext_def no_graph_data_def)
    next
      case (Some i)
      with findSeedNode_member[OF Some] ne have "i \<noteq> []" by auto
      moreover from Some have "nodes g \<noteq> []" using findSeedNode_None[of g q sn] by simp
      ultimately show ?thesis using Some
        by (simp add: queryContext_def Let_def split: prod.splits)
    qed
  qed
  from findSeedNode_None[of g q sn] findSeedNode_member[of g q sn]
    findSeedNode_last_tier[of g sn q] top_node_Some[of g] qc
  show ?thesis by blast
qed

lemma unranked_seed:
  "findSeedNode unranked_graph '''' (Some ''nonexistent'') = Some ''u1''"
  "findSeedNode unranked_graph ''no such words'' None = Some ''u1''"
  "name_tier unranked_graph (Some ''nonexistent'') = None"
  "fts_tier unranked_graph '''' = None"
  "overlap_tier unranked_graph '''' = None"
  by code_simp+

lemma empty_seed: "findSeedNode empty_graph ''anything'' (Some ''nonexistent'') = None"
  by code_simp

theorem findSeedNode_null_iff_empty_witness:
  "findSeedNode unranked_graph '''' (Some ''nonexistent'') = Some ''u1''
   \<and> findSeedNode unranked_graph ''no such words'' None = Some ''u1''
   \<and> nodes unranked_graph \<noteq> []
   \<and> ''u1'' \<in> node_id ` set (nodes unranked_graph)
   \<and> map_option node_id (top_node unranked_graph) = Some ''u1''
   \<and> findSeedNode empty_graph ''anything'' (Some ''nonexistent'') = None
   \<and> nodes empty_graph = []"
proof -
  have t: "\<not> truthy (overlap_tier unranked_graph '''')"
    by (simp add: unranked_seed truthy_def)
  from findSeedNode_null_iff_empty[of unranked_graph "''''" "Some ''nonexistent''" 0 0 0]
    findSeedNode_null_iff_empty[of empty_graph "''anything''" "Some ''nonexistent''" 0 0 0]
    t
  show ?thesis
    by (simp add: unranked_seed empty_seed)
qed

section \<open>The seed of a query with a seed name\<close>

lemma total_cost_take_mono:
  "i \<le> j \<Longrightarrow> total_cost g (take i ns) \<le> total_cost g (take j ns)"
proof -
  assume "i \<le> j"
  then obtain d where j: "j = i + d" using le_Suc_ex by blast
  show ?thesis
    unfolding j take_add total_cost_def by simp
qed

lemma name_tier_found:
  "s \<noteq> [] \<Longrightarrow> select_node_by_name g s = Some n \<Longrightarrow>
   findSeedNode g q (Some s) = Some (node_id n)"
  by (simp add: findSeedNode_def name_tier_def)

lemma select_node_by_name_member:
  "select_node_by_name g s = Some n \<Longrightarrow> n \<in> set (nodes g) \<and> name n = s"
  by (auto simp: select_node_by_name_def find_Some_iff)

lemma set_scored_candidates:
  "fst ` set (scored_candidates g q sid md mn) = fst ` set (BFS_SQL g sid md mn)"
  by (force simp: scored_candidates_def sort_scored_def Let_def)

lemma accepted_iff:
  assumes "findSeedNode g q sn = Some sid" and "sid \<noteq> []"
  shows "i \<in> set (node_ids (queryContext g q sn B md mn)) \<longleftrightarrow>
    (\<exists>p<length (scored_candidates g q sid md mn).
       node_id (fst (scored_candidates g q sid md mn ! p)) = i \<and>
       int (total_cost g (take (Suc p) (map fst (scored_candidates g q sid md mn)))) \<le> B)"
proof -
  let ?ns = "map fst (scored_candidates g q sid md mn)"
  obtain k where k: "k \<le> length ?ns"
    and eq: "assemble g B ?ns ([], [], 0) =
           (map (formatNodeContext g) (take k ?ns), map node_id (take k ?ns),
            total_cost g (take k ?ns))"
    and fit: "\<And>j. 0 < j \<Longrightarrow> j \<le> k \<Longrightarrow> int (total_cost g (take j ?ns)) \<le> B"
    and stop: "k < length ?ns \<Longrightarrow> int (total_cost g (take (Suc k) ?ns)) > B"
    by (rule assemble_initial[of ?ns g B]) blast
  have ids: "node_ids (queryContext g q sn B md mn) = map node_id (take k ?ns)"
    using queryContext_found[OF assms eq] by simp
  show ?thesis
  proof
    assume "i \<in> set (node_ids (queryContext g q sn B md mn))"
    then have "i \<in> set (map node_id (take k ?ns))" by (simp add: ids)
    then obtain p where p: "p < length (take k ?ns)" and ip: "node_id (take k ?ns ! p) = i"
      by (auto simp: in_set_conv_nth)
    from p k have pk: "p < k" and pl: "p < length ?ns" by simp_all
    from ip pk have "node_id (?ns ! p) = i" by simp
    then have "node_id (fst (scored_candidates g q sid md mn ! p)) = i"
      using pl by simp
    moreover have "int (total_cost g (take (Suc p) ?ns)) \<le> B"
      using fit[of "Suc p"] pk by simp
    ultimately show "\<exists>p<length (scored_candidates g q sid md mn).
       node_id (fst (scored_candidates g q sid md mn ! p)) = i \<and>
       int (total_cost g (take (Suc p) ?ns)) \<le> B"
      using pl by auto
  next
    assume "\<exists>p<length (scored_candidates g q sid md mn).
       node_id (fst (scored_candidates g q sid md mn ! p)) = i \<and>
       int (total_cost g (take (Suc p) ?ns)) \<le> B"
    then obtain p where pl: "p < length ?ns"
      and ip: "node_id (?ns ! p) = i"
      and c: "int (total_cost g (take (Suc p) ?ns)) \<le> B"
      by auto
    have pk: "p < k"
    proof (rule ccontr)
      assume "\<not> p < k"
      then have kp: "k \<le> p" by simp
      with pl have "k < length ?ns" by simp
      from stop[OF this] have "int (total_cost g (take (Suc k) ?ns)) > B" .
      moreover have "total_cost g (take (Suc k) ?ns) \<le> total_cost g (take (Suc p) ?ns)"
        using kp by (intro total_cost_take_mono) simp
      ultimately show False using c by linarith
    qed
    then have "take k ?ns ! p = ?ns ! p" by simp
    moreover have "p < length (take k ?ns)" using pk pl by simp
    ultimately have "i \<in> set (map node_id (take k ?ns))"
      using ip by (metis nth_mem image_eqI set_map)
    then show "i \<in> set (node_ids (queryContext g q sn B md mn))" by (simp add: ids)
  qed
qed

text \<open>
  C3, as amended. When the caller's seed name is not empty and is the display name of a
  stored node, let \<open>n\<close> be the first such node in table order; if its identifier is not
  the empty string, then \<open>seed_node\<close> is the identifier of \<open>n\<close> (not its name); if the
  node limit is not 0, \<open>n\<close>'s identifier is among the scored candidates; and it is a
  member of \<open>node_ids\<close> exactly when the budget covers the score-sorted candidates up to
  and including a candidate with that identifier.
\<close>

theorem queryContext_seed_by_name:
  assumes "s \<noteq> []" and "select_node_by_name g s = Some n" and "node_id n \<noteq> []"
  shows "seed_node (queryContext g q (Some s) B md mn) = Some (node_id n)
    \<and> (mn \<noteq> 0 \<longrightarrow>
         node_id n \<in> (\<lambda>c. node_id (fst c)) ` set (scored_candidates g q (node_id n) md mn))
    \<and> (node_id n \<in> set (node_ids (queryContext g q (Some s) B md mn)) \<longleftrightarrow>
         (\<exists>p<length (scored_candidates g q (node_id n) md mn).
            node_id (fst (scored_candidates g q (node_id n) md mn ! p)) = node_id n \<and>
            int (total_cost g (take (Suc p) (map fst (scored_candidates g q (node_id n) md mn))))
              \<le> B))"
proof -
  have seed: "findSeedNode g q (Some s) = Some (node_id n)"
    using assms(1,2) by (rule name_tier_found)
  have s1: "seed_node (queryContext g q (Some s) B md mn) = Some (node_id n)"
    using seed assms(3) by (simp add: queryContext_def Let_def split: prod.splits)
  have s2: "mn \<noteq> 0 \<longrightarrow>
         node_id n \<in> (\<lambda>c. node_id (fst c)) ` set (scored_candidates g q (node_id n) md mn)"
  proof
    assume mn: "mn \<noteq> 0"
    have "n \<in> set (nodes g)" using assms(2) by (simp add: select_node_by_name_member)
    from BFS_SQL_contains_seed[OF this mn, of md]
    have "node_id n \<in> node_id ` fst ` set (BFS_SQL g (node_id n) md mn)"
      by (simp add: image_image)
    then have "node_id n \<in> node_id ` fst ` set (scored_candidates g q (node_id n) md mn)"
      by (simp only: set_scored_candidates)
    then show "node_id n \<in> (\<lambda>c. node_id (fst c)) ` set (scored_candidates g q (node_id n) md mn)"
      by (simp add: image_image)
  qed
  from s1 s2 accepted_iff[OF seed assms(3), of "node_id n" B md mn]
  show ?thesis by blast
qed

lemma star_select: "select_node_by_name star_graph ''hub'' = Some star_hub"
  by (simp add: select_node_by_name_def star_graph_def star_hub_def plain_node_def)

lemma star_assemble_small:
  "assemble star_graph 5 [star_hub, star_wide, star_leaf] ([], [], 0) = ([], [], 0)"
  by code_simp

lemma star_result_small:
  "node_ids (queryContext star_graph q (Some ''hub'') 5 3 80) = []"
  by (simp add: queryContext_def star_seed star_scored star_assemble_small Let_def
      del: assemble.simps)

theorem queryContext_seed_by_name_witness:
  "select_node_by_name star_graph ''hub'' = Some star_hub
   \<and> seed_node (queryContext star_graph ''tidy the data'' (Some ''hub'') 25 3 80) = Some ''n_hub''
   \<and> ''n_hub'' \<in> (\<lambda>c. node_id (fst c)) ` set (scored_candidates star_graph ''tidy the data'' ''n_hub'' 3 80)
   \<and> ''n_hub'' \<in> set (node_ids (queryContext star_graph ''tidy the data'' (Some ''hub'') 25 3 80))"
proof -
  have a: "''hub'' \<noteq> []" and b: "node_id star_hub \<noteq> []"
    by (simp_all add: star_ids)
  from queryContext_seed_by_name[OF a star_select b, of "''tidy the data''" 25 3 80]
  show ?thesis
    by (simp add: star_select star_ids star_result)
qed

text \<open>
  C3 as stated fails: in the star store the node named "hub" has the identifier "n_hub",
  which is what \<open>seed_node\<close> holds; and with a budget of 5 the seed's block (cost 11)
  is not accepted, so its identifier is not in \<open>node_ids\<close>.
\<close>

theorem queryContext_seed_is_name_counterexample:
  "''hub'' \<in> set (map name (nodes star_graph))
   \<and> seed_node (queryContext star_graph ''tidy the data'' (Some ''hub'') 25 3 80) = Some ''n_hub''
   \<and> seed_node (queryContext star_graph ''tidy the data'' (Some ''hub'') 25 3 80) \<noteq> Some ''hub''
   \<and> ''n_hub'' \<notin> set (node_ids (queryContext star_graph ''tidy the data'' (Some ''hub'') 5 3 80))"
  by (simp add: star_result star_result_small)
     (simp add: star_graph_def star_hub_def plain_node_def)

section \<open>The blended score\<close>

lemma cosine_loop_sums:
  "length a = length b \<Longrightarrow>
   cosine_loop a b (d, na, nb) = (d + dot a b, na + dot a a, nb + dot b b)"
  by (induction a b arbitrary: d na nb rule: list_induct2) (simp_all add: dot_def)

lemma cosineSimilarity_eq:
  "cosineSimilarity a b =
     (if length a \<noteq> length b \<or> a = [] \<or> sqrt (dot a a) * sqrt (dot b b) = 0 then 0
      else dot a b / (sqrt (dot a a) * sqrt (dot b b)))"
  by (auto simp: cosineSimilarity_def cosine_loop_sums Let_def)

lemma semScore_similarity:
  "semScore_of (qVecArr_of qv) n = similarity (map snd qv) (embedding n)"
proof (cases "embedding n")
  case (EmbArray emb)
  show ?thesis
  proof (cases "qv = []")
    case True
    then show ?thesis
      by (simp add: semScore_of_def qVecArr_of_def similarity_def EmbArray)
  next
    case False
    then have q: "qVecArr_of qv = Some (map snd qv)" by (simp add: qVecArr_of_def)
    have "length (take (length qv) emb) \<noteq> length qv \<longleftrightarrow> length (take (length qv) emb) < length qv"
      by auto
    then show ?thesis
      using False
      by (auto simp add: semScore_of_def q similarity_def EmbArray cosineSimilarity_eq Let_def)
  qed
qed (simp_all add: semScore_of_def similarity_def split: option.splits)

lemma update_fresh: "k \<notin> fst ` set al \<Longrightarrow> AList.update k v al = al @ [(k, v)]"
  by (induction al) auto

lemma keys_tf_step:
  "map fst (tf_step tf t) = (if t \<in> set (map fst tf) then map fst tf else map fst tf @ [t])"
  by (simp add: tf_step_def update_keys)

lemma keys_count_terms: "map fst (count_terms toks) = first_occurrences toks"
proof (induction toks rule: rev_induct)
  case Nil
  show ?case by (simp add: count_terms_def first_occurrences_def)
next
  case (snoc t toks)
  have s: "set (first_occurrences toks) = set toks"
    by (simp add: first_occurrences_def)
  have "map fst (count_terms (toks @ [t])) = map fst (tf_step (count_terms toks) t)"
    by (simp add: count_terms_def)
  also have "\<dots> = (if t \<in> set toks then first_occurrences toks else first_occurrences toks @ [t])"
    using s by (simp add: keys_tf_step snoc.IH del: set_map)
  also have "\<dots> = first_occurrences (toks @ [t])"
    by (simp add: first_occurrences_def)
  finally show ?case .
qed

lemma weigh_fold_append:
  "distinct (map fst tf) \<Longrightarrow> fst ` set acc \<inter> fst ` set tf = {} \<Longrightarrow>
   foldl (weigh_step vocab n) acc tf =
     acc @ concat (map (\<lambda>tc. case map_of vocab (fst tc) of
                               None \<Rightarrow> []
                             | Some row \<Rightarrow>
                                 [(fst tc, ln (1 + real (snd tc)) / ln (1 + real n) * idf row)]) tf)"
proof (induction tf arbitrary: acc)
  case Nil
  show ?case by simp
next
  case (Cons p tf)
  obtain k c where p: "p = (k, c)" by (cases p)
  from Cons.prems p have fresh: "k \<notin> fst ` set acc" and d: "distinct (map fst tf)"
    and ktf: "k \<notin> fst ` set tf" and disj: "fst ` set acc \<inter> fst ` set tf = {}"
    by auto
  show ?case
  proof (cases "map_of vocab k")
    case None
    then have "weigh_step vocab n acc p = acc" by (simp add: weigh_step_def p)
    then show ?thesis using Cons.IH[OF d disj] None by (simp add: p)
  next
    case (Some row)
    let ?v = "ln (1 + real c) / ln (1 + real n) * idf row"
    have w: "weigh_step vocab n acc p = acc @ [(k, ?v)]"
      using Some fresh by (simp add: weigh_step_def p Let_def update_fresh)
    have "fst ` set (acc @ [(k, ?v)]) \<inter> fst ` set tf = {}"
      using disj ktf by auto
    from Cons.IH[OF d this] show ?thesis using Some w by (simp add: p)
  qed
qed

lemma values_of_weighted:
  "map snd (concat (map (\<lambda>tc. case m (fst tc) of
                                  None \<Rightarrow> []
                                | Some row \<Rightarrow> [(fst tc, w (fst tc) row)]) tf)) =
   concat (map (\<lambda>t. case m t of None \<Rightarrow> [] | Some row \<Rightarrow> [w t row]) (map fst tf))"
  by (induction tf) (simp_all split: option.splits)

lemma buildQueryVector_values:
  "map snd (buildQueryVector q vocab) = query_order_values q vocab"
proof -
  let ?toks = "tokenize q"
  let ?tf = "count_terms ?toks"
  have cnt: "snd tc = count_list ?toks (fst tc)" if "tc \<in> set ?tf" for tc
  proof -
    from that have "map_of ?tf (fst tc) = Some (snd tc)"
      using distinct_count_terms[of ?toks] by simp
    then show ?thesis
      by (simp add: map_of_count_terms split: if_splits)
  qed
  have "buildQueryVector q vocab =
      concat (map (\<lambda>tc. case map_of vocab (fst tc) of
                               None \<Rightarrow> []
                             | Some row \<Rightarrow>
                                 [(fst tc, ln (1 + real (snd tc)) / ln (1 + real (length ?toks)) * idf row)]) ?tf)"
    unfolding buildQueryVector_def Let_def
    using weigh_fold_append[OF distinct_count_terms, of "[]" ?toks vocab "length ?toks"]
    by simp
  also have "\<dots> = concat (map (\<lambda>tc. case map_of vocab (fst tc) of
                               None \<Rightarrow> []
                             | Some row \<Rightarrow> [(fst tc, tf_weight ?toks (fst tc) * idf row)]) ?tf)"
    by (intro arg_cong[where f=concat] map_cong refl)
       (simp add: cnt tf_weight_def split: option.splits)
  finally have bq: "buildQueryVector q vocab =
      concat (map (\<lambda>tc. case map_of vocab (fst tc) of
                               None \<Rightarrow> []
                             | Some row \<Rightarrow> [(fst tc, tf_weight ?toks (fst tc) * idf row)]) ?tf)" .
  have "map snd (buildQueryVector q vocab) =
      concat (map (\<lambda>t. case map_of vocab t of
                               None \<Rightarrow> []
                             | Some row \<Rightarrow> [tf_weight ?toks t * idf row]) (map fst ?tf))"
    unfolding bq
    by (rule values_of_weighted[where m = "map_of vocab"
          and w = "\<lambda>t row. tf_weight (tokenize q) t * idf row"])
  then show ?thesis
    by (simp add: query_order_values_def keys_count_terms Let_def)
qed

lemma score_node_blend:
  "score_node (qVecArr_of (buildQueryVector q vocab)) (n, d) =
     blend (similarity (query_order_values q vocab) (embedding n)) n d"
  by (simp add: score_node_def blend_def Let_def semScore_similarity buildQueryVector_values)


lemma sqrt_sum_squares_3_4: "0 < c \<Longrightarrow> sqrt (c * 4 * (c * 4) + c * 3 * (c * 3)) = c * 5"
  by (rule real_sqrt_unique) (simp_all add: power2_eq_square algebra_simps)

lemma similarity_4_3:
  assumes "0 < c"
  shows "similarity [c * 4, c * 3] (EmbArray [1, 0]) = 4 / 5"
proof -
  have n: "sqrt (dot [c * 4, c * 3] [c * 4, c * 3]) = c * 5"
    using sqrt_sum_squares_3_4[OF assms] by (simp add: dot_def)
  have "similarity [c * 4, c * 3] (EmbArray [1, 0]) = c * 4 / (c * 5)"
    using assms by (simp add: similarity_def Let_def n) (simp add: dot_def)
  then show ?thesis using assms by simp
qed

lemma similarity_3_4:
  assumes "0 < c"
  shows "similarity [c * 3, c * 4] (EmbArray [1, 0]) = 3 / 5"
proof -
  have n: "sqrt (dot [c * 3, c * 4] [c * 3, c * 4]) = c * 5"
    using sqrt_sum_squares_3_4[OF assms] by (simp add: dot_def add.commute)
  have "similarity [c * 3, c * 4] (EmbArray [1, 0]) = c * 3 / (c * 5)"
    using assms by (simp add: similarity_def Let_def n) (simp add: dot_def)
  then show ?thesis using assms by simp
qed

lemma tokenize_bb_aa: "tokenize ''bb aa'' = [''bb'', ''aa'']"
  by code_simp

lemma tf_weight_bb_aa:
  "tf_weight [''bb'', ''aa''] ''bb'' = ln 2 / ln 3"
  "tf_weight [''bb'', ''aa''] ''aa'' = ln 2 / ln 3"
  by (simp_all add: tf_weight_def)

lemma ln_ratio_pos: "0 < ln (2::real) / ln 3"
  by simp

lemma query_order_bb_aa:
  "query_order_values ''bb aa'' two_term_vocab = [ln 2 * 4 / ln 3, ln 2 * 3 / ln 3]"
  by (simp add: query_order_values_def Let_def tokenize_bb_aa first_occurrences_def
      two_term_vocab_def tf_weight_bb_aa)

lemma vocab_order_bb_aa:
  "vocab_order_values ''bb aa'' two_term_vocab = [ln 2 * 3 / ln 3, ln 2 * 4 / ln 3]"
  by (simp add: vocab_order_values_def Let_def tokenize_bb_aa two_term_vocab_def tf_weight_bb_aa)

lemma axis_embedding: "embedding axis_node = EmbArray [1, 0]"
  "pagerank axis_node = None" "task_weight axis_node = None"
  by (simp_all add: axis_node_def plain_node_def)

text \<open>
  C7, as amended. The score of a candidate \<open>n\<close> at depth \<open>d\<close> is
  \<open>0.40 * s + 0.25 * centrality + 0.25 * task_weight + 0.10 * (1 / (1 + d * 0.5))\<close>,
  with centrality 0 and task weight 0.5 when absent, where \<open>s\<close> is the cosine similarity
  of the query vector's values, listed in the order in which their tokens first occur in
  the query, with the leading components of the node's embedding; \<open>s\<close> is 0 without a
  usable embedding, for an empty query vector, for an embedding with fewer components
  than the query vector, and for a zero norm. Every candidate of the traversal is scored
  this way.
\<close>

theorem blended_score_query_order:
  "score_node (qVecArr_of (buildQueryVector q vocab)) (n, d) =
     0.40 * similarity (query_order_values q vocab) (embedding n)
     + 0.25 * (case pagerank n of None \<Rightarrow> 0 | Some p \<Rightarrow> p)
     + 0.25 * (case task_weight n of None \<Rightarrow> 0.5 | Some w \<Rightarrow> w)
     + 0.10 * (1 / (1 + real d * 0.5))
   \<and> scored_candidates g q sid md mn =
       sort_scored (map (\<lambda>nd. (fst nd,
           blend (similarity (query_order_values q (tfidfVocab g)) (embedding (fst nd)))
             (fst nd) (snd nd)))
         (BFS_SQL g sid md mn))
   \<and> map snd (buildQueryVector q vocab) = query_order_values q vocab
   \<and> similarity vals EmbAbsent = 0
   \<and> similarity vals EmbMalformed = 0
   \<and> similarity [] e = 0
   \<and> (length emb < length vals \<longrightarrow> similarity vals (EmbArray emb) = 0)
   \<and> (sqrt (dot vals vals) = 0 \<longrightarrow> similarity vals e = 0)
   \<and> (sqrt (dot (take (length vals) emb) (take (length vals) emb)) = 0 \<longrightarrow>
        similarity vals (EmbArray emb) = 0)"
proof -
  have a: "score_node (qVecArr_of (buildQueryVector q vocab)) (n, d) =
     0.40 * similarity (query_order_values q vocab) (embedding n)
     + 0.25 * (case pagerank n of None \<Rightarrow> 0 | Some p \<Rightarrow> p)
     + 0.25 * (case task_weight n of None \<Rightarrow> 0.5 | Some w \<Rightarrow> w)
     + 0.10 * (1 / (1 + real d * 0.5))"
    using score_node_blend[of q vocab n d] by (simp add: blend_def)
  have b: "scored_candidates g q sid md mn =
       sort_scored (map (\<lambda>nd. (fst nd,
           blend (similarity (query_order_values q (tfidfVocab g)) (embedding (fst nd)))
             (fst nd) (snd nd)))
         (BFS_SQL g sid md mn))"
  proof -
    have "score_node (qVecArr_of (buildQueryVector q (tfidfVocab g))) nd =
        blend (similarity (query_order_values q (tfidfVocab g)) (embedding (fst nd)))
          (fst nd) (snd nd)" for nd
      using score_node_blend[of q "tfidfVocab g" "fst nd" "snd nd"] by simp
    then show ?thesis by (simp add: scored_candidates_def Let_def)
  qed
  have c: "similarity vals EmbAbsent = 0" "similarity vals EmbMalformed = 0"
    "similarity [] e = 0"
    by (simp_all add: similarity_def split: embedding_text.splits)
  have d: "length emb < length vals \<longrightarrow> similarity vals (EmbArray emb) = 0"
    by (simp add: similarity_def Let_def)
  have e: "sqrt (dot vals vals) = 0 \<longrightarrow> similarity vals e = 0"
    by (simp add: similarity_def Let_def split: embedding_text.splits)
  have f: "sqrt (dot (take (length vals) emb) (take (length vals) emb)) = 0 \<longrightarrow>
        similarity vals (EmbArray emb) = 0"
    by (simp add: similarity_def Let_def)
  from a b c d e f buildQueryVector_values[of q vocab] show ?thesis by blast
qed

theorem blended_score_query_order_witness:
  "score_node (qVecArr_of (buildQueryVector ''bb aa'' two_term_vocab)) (axis_node, 0) = 109 / 200
   \<and> map snd (buildQueryVector ''bb aa'' two_term_vocab) = [ln 2 * 4 / ln 3, ln 2 * 3 / ln 3]
   \<and> similarity [ln 2 * 4 / ln 3, ln 2 * 3 / ln 3] (embedding axis_node) = 4 / 5
   \<and> length [1::real] < length [ln 2 * 4 / ln 3, ln 2 * 3 / ln 3 :: real]
   \<and> similarity [ln 2 * 4 / ln 3, ln 2 * 3 / ln 3] (EmbArray [1]) = 0"
proof -
  have s: "similarity [ln 2 * 4 / ln 3, ln 2 * 3 / ln 3] (EmbArray [1, 0]) = 4 / 5"
    using similarity_4_3[OF ln_ratio_pos] by simp
  from blended_score_query_order[of "''bb aa''" two_term_vocab axis_node 0 undefined undefined
      undefined undefined "[ln 2 * 4 / ln 3, ln 2 * 3 / ln 3]" undefined "[1]"]
  show ?thesis
    by (simp add: query_order_bb_aa axis_embedding s)
qed

text \<open>
  C7 as stated fails: with the vocabulary aa (idf 3), bb (idf 4), the query "bb aa" and a
  node whose embedding is (1, 0), the code compares (4t, 3t) with the embedding
  (similarity 4/5), not the vocabulary order (3t, 4t) (similarity 3/5), where
  \<open>t = log 2 / log 3\<close>.
\<close>

theorem blended_score_vocab_order_counterexample:
  "score_node (qVecArr_of (buildQueryVector ''bb aa'' two_term_vocab)) (axis_node, 0) \<noteq>
     0.40 * similarity (vocab_order_values ''bb aa'' two_term_vocab) (embedding axis_node)
     + 0.25 * 0 + 0.25 * 0.5 + 0.10 * (1 / (1 + real 0 * 0.5))
   \<and> pagerank axis_node = None \<and> task_weight axis_node = None"
proof -
  have s: "similarity [ln 2 * 4 / ln 3, ln 2 * 3 / ln 3] (EmbArray [1, 0]) = 4 / 5"
    using similarity_4_3[OF ln_ratio_pos] by simp
  have t: "similarity [ln 2 * 3 / ln 3, ln 2 * 4 / ln 3] (EmbArray [1, 0]) = 3 / 5"
    using similarity_3_4[OF ln_ratio_pos] by simp
  have "score_node (qVecArr_of (buildQueryVector ''bb aa'' two_term_vocab)) (axis_node, 0)
      = 109 / 200"
    by (simp add: score_node_blend blend_def query_order_bb_aa axis_embedding s)
  then show ?thesis
    by (simp add: vocab_order_bb_aa axis_embedding t)
qed

end
